theory Spec2Isabelle
  imports Complex_Main "HOL-Library.Word" "HOL-Library.Signed_Division" "HOL-Library.Log_Nat"
begin

section \<open>The camera of the ray tracer (src/inc/camera.hpp)\<close>

text \<open>
  The development embeds the class \<open>camera\<close>: its configuration, \<open>initialize\<close>,
  \<open>get_ray\<close>, \<open>ray_color\<close> and the render loop \<open>render_to_buffer_with_progress\<close> with its
  legacy wrapper \<open>render_to_buffer\<close>.

  Conventions of the embedding.
  \<^item> A C++ \<open>double\<close> or \<open>float\<close> is the \<open>real\<close> it holds. Where the source turns the result
    of floating-point arithmetic into something discrete, the arithmetic is that of IEEE 754,
    the exact operation followed by rounding to the nearest floating-point number: the
    quotient behind the image height, the accumulation and the scaling of the colour of a
    pixel, which end in three bytes, and the progress fraction, which is compared with 1.
    The geometry of the viewport and the shading formulas of \<open>ray_color\<close> are kept in exact
    arithmetic. Infinities and NaN are not values of the model: a division by zero is an
    error branch, and a result beyond the largest finite number is not distinguished; nor
    is the sign of a zero. The product of 256 and a clamped channel, whose truncation is
    the byte, is exact in a \<open>double\<close> and is not rounded again.
  \<^item> An \<open>int\<close> is an \<open>int\<close>; the places where the C++ value would leave the range of a
    32-bit \<open>int\<close> are error branches of the model. The integer division and remainder of
    C++ are \<open>sdiv\<close> and \<open>smod\<close>, which truncate towards zero.
  \<^item> The headers vec3.hpp, ray.hpp, interval.hpp, hittable.hpp, material.hpp, color.hpp and
    rt.hpp are not part of the sources at hand. The vector algebra and the interval are
    modelled from the specification; the scene (\<open>hit\<close>), the materials (\<open>scatter\<close>), the
    random number generator and \<open>linear_to_gamma\<close> are parameters, collected in the record
    \<open>env\<close>.
  \<^item> The global random number generator is an explicit state of type \<open>'g\<close> that every
    function drawing random numbers takes and returns.
\<close>

subsection \<open>Floating-point rounding\<close>

text \<open>
  \<open>rne x\<close> is the integer nearest to \<open>x\<close>, the even one of the two when \<open>x\<close> lies halfway.
\<close>

definition rne :: "real \<Rightarrow> int" where
  "rne x =
     (let f = \<lfloor>x\<rfloor>; d = x - real_of_int f
      in if d < 1/2 then f else if 1/2 < d then f + 1 else if even f then f else f + 1)"

text \<open>
  \<open>binade x\<close> is the exponent \<open>e\<close> with \<open>2 powi e \<le> \<bar>x\<bar> < 2 powi (e + 1)\<close>, for \<open>x \<noteq> 0\<close>.
\<close>

definition binade :: "real \<Rightarrow> int" where
  "binade x = (if 1 \<le> \<bar>x\<bar> then bitlen \<lfloor>\<bar>x\<bar>\<rfloor> - 1 else - bitlen (\<lceil>1 / \<bar>x\<bar>\<rceil> - 1))"

text \<open>
  Rounding to the nearest number with \<open>p\<close> significant bits, ties to even, where \<open>emin\<close> is
  the exponent of the smallest normal number: the numbers near \<open>x\<close> are the multiples of
  \<open>2 powi (e - (p - 1))\<close>, with \<open>e\<close> the binade of \<open>x\<close>, or \<open>emin\<close> for a subnormal \<open>x\<close>. A
  \<open>double\<close> has 53 bits and \<open>emin = -1022\<close>, a \<open>float\<close> 24 bits and \<open>emin = -126\<close>.
\<close>

definition round_to :: "nat \<Rightarrow> int \<Rightarrow> real \<Rightarrow> real" where
  "round_to p emin x =
     (let q = 2 powi (max (binade x) emin - (int p - 1))
      in real_of_int (rne (x / q)) * q)"

definition round_double :: "real \<Rightarrow> real" where
  "round_double = round_to 53 (- 1022)"

definition round_float :: "real \<Rightarrow> real" where
  "round_float = round_to 24 (- 126)"

text \<open>
  \<open>static_cast<float>(completed_pixels) / total_pixels\<close>: both integers are converted to
  \<open>float\<close>, and the quotient is a \<open>float\<close>.
\<close>

definition float_progress :: "int \<Rightarrow> int \<Rightarrow> real" where
  "float_progress completed n_pixels =
     round_float (round_float (real_of_int completed) / round_float (real_of_int n_pixels))"

subsection \<open>Vectors, rays, intervals\<close>

text \<open>
  Modelled from the spec: vec3.hpp is missing. A vector has three floating components; the
  spec names arithmetic, dot and cross products and normalization.
\<close>

datatype vec3 = Vec3 (vx: real) (vy: real) (vz: real)

type_synonym point3 = vec3
type_synonym color = vec3

instantiation vec3 :: "{zero, plus, minus, uminus, times}"
begin

definition zero_vec3 :: vec3 where
  "zero_vec3 = Vec3 0 0 0"

definition plus_vec3 :: "vec3 \<Rightarrow> vec3 \<Rightarrow> vec3" where
  "plus_vec3 a b = Vec3 (vx a + vx b) (vy a + vy b) (vz a + vz b)"

definition minus_vec3 :: "vec3 \<Rightarrow> vec3 \<Rightarrow> vec3" where
  "minus_vec3 a b = Vec3 (vx a - vx b) (vy a - vy b) (vz a - vz b)"

definition uminus_vec3 :: "vec3 \<Rightarrow> vec3" where
  "uminus_vec3 a = Vec3 (- vx a) (- vy a) (- vz a)"

definition times_vec3 :: "vec3 \<Rightarrow> vec3 \<Rightarrow> vec3" where
  "times_vec3 a b = Vec3 (vx a * vx b) (vy a * vy b) (vz a * vz b)"

instance ..

end

text \<open>\<open>t * v\<close> and \<open>v * t\<close> for a scalar \<open>t\<close>, and \<open>v / t\<close>.\<close>

definition smul :: "real \<Rightarrow> vec3 \<Rightarrow> vec3" where
  "smul t a = Vec3 (t * vx a) (t * vy a) (t * vz a)"

definition vdiv :: "vec3 \<Rightarrow> real \<Rightarrow> vec3" where
  "vdiv a t = smul (1 / t) a"

definition dot :: "vec3 \<Rightarrow> vec3 \<Rightarrow> real" where
  "dot a b = vx a * vx b + vy a * vy b + vz a * vz b"

definition cross :: "vec3 \<Rightarrow> vec3 \<Rightarrow> vec3" where
  "cross a b = Vec3 (vy a * vz b - vz a * vy b)
                    (vz a * vx b - vx a * vz b)
                    (vx a * vy b - vy a * vx b)"

definition length_vec :: "vec3 \<Rightarrow> real" where
  "length_vec a = sqrt (dot a a)"

definition unit_vector :: "vec3 \<Rightarrow> vec3" where
  "unit_vector a = vdiv a (length_vec a)"

text \<open>
  Modelled from the spec: \<open>a += b\<close> and \<open>a *= t\<close> of vec3.hpp, componentwise in \<open>double\<close>
  arithmetic.
\<close>

definition vround :: "vec3 \<Rightarrow> vec3" where
  "vround a = Vec3 (round_double (vx a)) (round_double (vy a)) (round_double (vz a))"

definition plus_assign :: "vec3 \<Rightarrow> vec3 \<Rightarrow> vec3" where
  "plus_assign a b = vround (a + b)"

definition times_assign :: "vec3 \<Rightarrow> real \<Rightarrow> vec3" where
  "times_assign a t = vround (smul t a)"

text \<open>Modelled from the spec: ray.hpp is missing. A ray is an origin and a direction.\<close>

record ray =
  origin :: point3
  direction :: vec3

text \<open>
  Modelled from the spec: interval.hpp is missing. An interval is a closed range with a
  \<open>clamp\<close> operation; its fields are \<open>min\<close> and \<open>max\<close> in the source. The upper end of
  the interval of valid hit distances is the constant \<open>infinity\<close> of rt.hpp, which is not a
  real number: an upper end is a real or \<open>Infinity\<close>.
\<close>

datatype upper_end = Bound real | Infinity

record interval =
  imin :: real
  imax :: upper_end

definition clamp :: "interval \<Rightarrow> real \<Rightarrow> real" where
  "clamp iv a =
     (if a < imin iv then imin iv
      else case imax iv of
             Bound m \<Rightarrow> if a > m then m else a
           | Infinity \<Rightarrow> a)"

text \<open>Modelled from the spec: rt.hpp is missing.\<close>

definition degrees_to_radians :: "real \<Rightarrow> real" where
  "degrees_to_radians degrees = degrees * pi / 180"

subsection \<open>Scene, materials and random numbers: the parameters\<close>

text \<open>
  Modelled from the spec: hittable.hpp is missing. The result of an intersection; \<open>'m\<close> is
  the type of the material handles (\<open>rec.mat\<close>). The source names the first and the fourth
  field \<open>p\<close> and \<open>t\<close>.
\<close>

record 'm hit_record =
  rec_p :: point3
  normal :: vec3
  mat :: 'm
  rec_t :: real
  front_face :: bool

text \<open>
  What camera.hpp calls and the sources at hand do not define:
  \<^item> \<open>hit world r ray_t\<close> is \<open>world.hit(r, ray_t, rec)\<close>: \<open>None\<close> when it returns false, the
    record it fills in otherwise;
  \<^item> \<open>scatter m r_in rec g\<close> is \<open>m->scatter(r_in, rec, attenuation, scattered)\<close>, which may
    draw random numbers: \<open>None\<close> when it returns false;
  \<^item> \<open>random_double\<close> and \<open>random_in_unit_disk\<close> draw from the generator state;
  \<^item> \<open>linear_to_gamma\<close> is the gamma transform of color.hpp.

  One parameter is not a function of the program but a choice of its compiler:
  \<open>right_to_left\<close> tells whether the compiled \<open>sample_square\<close> evaluates the second argument
  of its constructor call before the first. C++ leaves the order unspecified.
\<close>

record ('w, 'm, 'g) env =
  hit :: "'w \<Rightarrow> ray \<Rightarrow> interval \<Rightarrow> 'm hit_record option"
  scatter :: "'m \<Rightarrow> ray \<Rightarrow> 'm hit_record \<Rightarrow> 'g \<Rightarrow> (color \<times> ray) option \<times> 'g"
  random_double :: "'g \<Rightarrow> real \<times> 'g"
  random_in_unit_disk :: "'g \<Rightarrow> vec3 \<times> 'g"
  linear_to_gamma :: "real \<Rightarrow> real"
  right_to_left :: bool

subsection \<open>The camera: configuration and derived geometry\<close>

text \<open>The public fields of \<open>class camera\<close>, with the defaults of the source.\<close>

record camera =
  aspect_ratio :: real
  image_width :: int
  samples_per_pixel :: int
  max_depth :: int
  vfov :: real
  lookfrom :: point3
  lookat :: point3
  vup :: vec3
  defocus_angle :: real
  focus_dist :: real
  enable_antialiasing :: bool
  enable_shadows :: bool
  enable_reflections :: bool
  enable_refractions :: bool

definition default_camera :: camera where
  "default_camera =
     \<lparr> aspect_ratio = 1, image_width = 100, samples_per_pixel = 10, max_depth = 10,
       vfov = 90, lookfrom = Vec3 0 0 0, lookat = Vec3 0 0 (- 1), vup = Vec3 0 1 0,
       defocus_angle = 0, focus_dist = 10,
       enable_antialiasing = True, enable_shadows = True,
       enable_reflections = True, enable_refractions = True \<rparr>"

text \<open>
  The private fields. \<open>initialize\<close> assigns every one of them before anything reads them, so
  they are the result of \<open>initialize\<close>; the source names the basis vectors \<open>u\<close>, \<open>v\<close>, \<open>w\<close>.
\<close>

record viewport =
  image_height :: int
  center :: point3
  pixel00_loc :: point3
  pixel_delta_u :: vec3
  pixel_delta_v :: vec3
  basis_u :: vec3
  basis_v :: vec3
  basis_w :: vec3
  defocus_disk_u :: vec3
  defocus_disk_v :: vec3

text \<open>
  The conversion \<open>int(d)\<close> of a double truncates towards zero and is undefined when the
  truncated value is not a 32-bit \<open>int\<close>.
\<close>

definition INT_MAX :: int where
  "INT_MAX = 2147483647"

definition INT_MIN :: int where
  "INT_MIN = - 2147483648"

definition trunc :: "real \<Rightarrow> int" where
  "trunc d = (if 0 \<le> d then \<lfloor>d\<rfloor> else \<lceil>d\<rceil>)"

definition double_to_int :: "real \<Rightarrow> int option" where
  "double_to_int d = (if INT_MIN \<le> trunc d \<and> trunc d \<le> INT_MAX then Some (trunc d) else None)"

text \<open>
  \<open>camera::initialize\<close>. The quotient \<open>image_width / aspect_ratio\<close> is a \<open>double\<close>: the exact
  quotient, rounded. \<open>None\<close> is undefined behaviour: a zero divisor, or a quotient outside the
  range of \<open>int\<close>.
\<close>

definition initialize :: "camera \<Rightarrow> viewport option" where
  "initialize cam =
     (if aspect_ratio cam = 0 then None
      else case double_to_int (round_double (real_of_int (image_width cam) / aspect_ratio cam)) of
        None \<Rightarrow> None
      | Some image_height0 \<Rightarrow>
          let image_height1 = (if image_height0 < 1 then 1 else image_height0);
              center1 = lookfrom cam;
              theta = degrees_to_radians (vfov cam);
              h = tan (theta / 2);
              viewport_height = 2 * h * focus_dist cam;
              viewport_width =
                viewport_height * (real_of_int (image_width cam) / real_of_int image_height1);
              w1 = unit_vector (lookfrom cam - lookat cam);
              u1 = unit_vector (cross (vup cam) w1);
              v1 = cross w1 u1;
              viewport_u = smul viewport_width u1;
              viewport_v = smul viewport_height (- v1);
              delta_u = vdiv viewport_u (real_of_int (image_width cam));
              delta_v = vdiv viewport_v (real_of_int image_height1);
              viewport_upper_left =
                center1 - smul (focus_dist cam) w1 - vdiv viewport_u 2 - vdiv viewport_v 2;
              defocus_radius =
                focus_dist cam * tan (degrees_to_radians (defocus_angle cam / 2))
          in Some \<lparr> image_height = image_height1,
                    center = center1,
                    pixel00_loc = viewport_upper_left + smul 0.5 (delta_u + delta_v),
                    pixel_delta_u = delta_u,
                    pixel_delta_v = delta_v,
                    basis_u = u1, basis_v = v1, basis_w = w1,
                    defocus_disk_u = smul defocus_radius u1,
                    defocus_disk_v = smul defocus_radius v1 \<rparr>)"

subsection \<open>Rays through a pixel\<close>

text \<open>
  \<open>sample_square\<close>: the source builds \<open>vec3(random_double() - 0.5, random_double() - 0.5, 0)\<close>.
  Which of the two calls draws first is the compiler's choice.
\<close>

definition sample_square :: "('w, 'm, 'g) env \<Rightarrow> 'g \<Rightarrow> vec3 \<times> 'g" where
  "sample_square e g =
     (case random_double e g of (a, g1) \<Rightarrow>
        case random_double e g1 of (b, g2) \<Rightarrow>
          if right_to_left e then (Vec3 (b - 0.5) (a - 0.5) 0, g2)
          else (Vec3 (a - 0.5) (b - 0.5) 0, g2))"

definition defocus_disk_sample :: "('w, 'm, 'g) env \<Rightarrow> viewport \<Rightarrow> 'g \<Rightarrow> point3 \<times> 'g" where
  "defocus_disk_sample e vp g =
     (case random_in_unit_disk e g of (p, g1) \<Rightarrow>
        (center vp + smul (vx p) (defocus_disk_u vp) + smul (vy p) (defocus_disk_v vp), g1))"

definition get_ray ::
  "('w, 'm, 'g) env \<Rightarrow> camera \<Rightarrow> viewport \<Rightarrow> int \<Rightarrow> int \<Rightarrow> 'g \<Rightarrow> ray \<times> 'g" where
  "get_ray e cam vp i j g =
     (case (if enable_antialiasing cam then sample_square e g else (Vec3 0 0 0, g)) of
        (offset, g1) \<Rightarrow>
          let pixel_sample =
                pixel00_loc vp + smul (real_of_int i + vx offset) (pixel_delta_u vp)
                               + smul (real_of_int j + vy offset) (pixel_delta_v vp)
          in case (if defocus_angle cam \<le> 0 then (center vp, g1)
                   else defocus_disk_sample e vp g1) of
               (ray_origin, g2) \<Rightarrow>
                 (\<lparr> origin = ray_origin, direction = pixel_sample - ray_origin \<rparr>, g2))"

subsection \<open>The colour of a ray\<close>

text \<open>
  \<open>camera::ray_color\<close>. The result is the colour, the state of the random number generator
  afterwards, and the number of invocations of \<open>ray_color\<close> this call made, itself
  included. The count is not in the source: it is what a spy on the function would see, and
  it lets the claims about recursion be stated.
\<close>

definition background :: "ray \<Rightarrow> color" where
  "background r =
     (let unit_direction = unit_vector (direction r);
          a = 0.5 * (vy unit_direction + 1.0)
      in smul (1.0 - a) (Vec3 1.0 1.0 1.0) + smul a (Vec3 0.5 0.7 1.0))"

function ray_color ::
  "('w, 'm, 'g) env \<Rightarrow> camera \<Rightarrow> 'w \<Rightarrow> ray \<Rightarrow> int \<Rightarrow> 'g \<Rightarrow> color \<times> 'g \<times> nat" where
  "ray_color e cam world r depth g =
     (if depth \<le> 0 then (Vec3 0 0 0, g, 1)
      else case hit e world r \<lparr> imin = 0.001, imax = Infinity \<rparr> of
        Some rec \<Rightarrow>
          if enable_shadows cam then
            (case scatter e (mat rec) r rec g of
               (Some (attenuation, scattered), g1) \<Rightarrow>
                 if enable_reflections cam \<or> enable_refractions cam then
                   (case ray_color e cam world scattered (depth - 1) g1 of
                      (c, g2, n) \<Rightarrow> (attenuation * c, g2, Suc n))
                 else
                   (let light_dir = unit_vector (Vec3 1 1 1);
                        light_intensity = max 0.0 (dot (normal rec) light_dir)
                    in (smul (0.3 + 0.7 * light_intensity) attenuation, g1, 1))
             | (None, g1) \<Rightarrow> (Vec3 0 0 0, g1, 1))
          else (Vec3 0 0 0, g, 1)
      | None \<Rightarrow> (background r, g, 1))"
  by pat_completeness auto
termination
  by (relation "measure (\<lambda>(e, cam, world, r, depth, g). nat depth)") auto

declare ray_color.simps [simp del]

subsection \<open>The render loop: state, signals and observable actions\<close>

type_synonym byte = "8 word"

text \<open>
  \<open>static_cast<unsigned char>(d)\<close> truncates; the render loop applies it to values between
  0 and 255.744 only.
\<close>

definition to_byte :: "real \<Rightarrow> byte" where
  "to_byte d = word_of_int (trunc d)"

text \<open>
  \<open>std::vector::resize\<close> and \<open>std::fill\<close>, as the loop uses them on the buffer.
\<close>

definition resize :: "byte list \<Rightarrow> nat \<Rightarrow> byte list" where
  "resize buf n = take n buf @ replicate (n - length buf) 0"

definition fill :: "byte list \<Rightarrow> byte \<Rightarrow> byte list" where
  "fill buf b = map (\<lambda>_. b) buf"

text \<open>
  The places where the loop reads the cancellation flag: the condition of the row loop, of
  the pixel loop and of the sample loop, the check after the samples of a pixel, and the
  check after the loops that chooses the final message.
\<close>

datatype poll_site =
    Row_start int
  | Pixel_start int int
  | Sample_start int int int
  | Samples_done int int
  | Render_end

text \<open>
  What the worker does that another thread can observe, in the order it happens. The list
  of these actions is not in the source; the model records it so that the claims about the
  order of polls, writes and notifications can be stated. Pixels are named \<open>i j\<close> (column,
  row) as in the source.
  \<^item> \<open>Poll site b\<close>: \<open>should_stop.load()\<close> at \<open>site\<close> returned \<open>b\<close>;
  \<^item> \<open>Sample i j sample\<close>: one \<open>get_ray\<close> and \<open>ray_color\<close> for the pixel;
  \<^item> \<open>Write i j r g b\<close>: the three bytes of the pixel stored in the buffer;
  \<^item> \<open>Progress v\<close>: \<open>progress.store(v)\<close>;
  \<^item> \<open>Clock_read now\<close>: \<open>steady_clock::now()\<close> returned \<open>now\<close>;
  \<^item> \<open>Update_pixel now\<close>: \<open>texture_needs_update.store(true)\<close> after a pixel, where \<open>now\<close> is
    the clock reading of that pixel;
  \<^item> \<open>Update_row j\<close>: \<open>texture_needs_update.store(true)\<close> at the end of row \<open>j\<close>.
\<close>

datatype event =
    Poll poll_site bool
  | Sample int int int
  | Write int int byte byte byte
  | Progress real
  | Clock_read real
  | Update_pixel real
  | Update_row int

text \<open>
  The variables of one invocation: the three shared objects (\<open>buffer\<close>, \<open>progress\<close>,
  \<open>texture_needs_update\<close>), the locals of the loop, the random number generator, and the
  number of reads of the cancellation flag and of the clock so far. Times are in
  milliseconds.
\<close>

record 'g render_state =
  buffer :: "byte list"
  progress :: real
  texture_needs_update :: bool
  completed_pixels :: int
  pixels_since_update :: int
  last_update_time :: real
  rng :: 'g
  polls :: nat
  clock_reads :: nat
  trace :: "event list"

text \<open>
  What stays fixed during one invocation: the parameters, the camera and its geometry, the
  scene, and the two signals the worker reads from outside. \<open>should_stop n\<close> is what the
  \<open>n\<close>-th \<open>should_stop.load()\<close> returns and \<open>steady_clock_now n\<close> what the \<open>n\<close>-th
  \<open>steady_clock::now()\<close> returns, counting from 0.
\<close>

record ('w, 'm, 'g) ctx =
  ctx_env :: "('w, 'm, 'g) env"
  ctx_cam :: camera
  ctx_vp :: viewport
  ctx_world :: 'w
  should_stop :: "nat \<Rightarrow> bool"
  steady_clock_now :: "nat \<Rightarrow> real"

definition total_pixels :: "('w, 'm, 'g) ctx \<Rightarrow> int" where
  "total_pixels c = image_width (ctx_cam c) * image_height (ctx_vp c)"

definition update_frequency :: "('w, 'm, 'g) ctx \<Rightarrow> int" where
  "update_frequency c = max 1 (total_pixels c sdiv 100)"

definition update_interval :: real where
  "update_interval = 100"

definition sample_count :: "camera \<Rightarrow> int" where
  "sample_count cam = (if enable_antialiasing cam then samples_per_pixel cam else 1)"

definition emit :: "event \<Rightarrow> 'g render_state \<Rightarrow> 'g render_state" where
  "emit ev s = s \<lparr> trace := trace s @ [ev] \<rparr>"

text \<open>One \<open>should_stop.load()\<close>: its value is \<open>should_stop c (polls s)\<close>.\<close>

definition polled :: "('w, 'm, 'g) ctx \<Rightarrow> poll_site \<Rightarrow> 'g render_state \<Rightarrow> 'g render_state" where
  "polled c site s = emit (Poll site (should_stop c (polls s))) (s \<lparr> polls := Suc (polls s) \<rparr>)"

subsection \<open>The samples of a pixel\<close>

text \<open>
  The body of the sample loop: \<open>ray r = get_ray(i, j); pixel_color += ray_color(r, max_depth,
  world)\<close>.
\<close>

definition one_sample ::
  "('w, 'm, 'g) env \<Rightarrow> camera \<Rightarrow> viewport \<Rightarrow> 'w \<Rightarrow> int \<Rightarrow> int \<Rightarrow> 'g \<Rightarrow> color \<times> 'g" where
  "one_sample e cam vp world i j g =
     (case get_ray e cam vp i j g of (r, g1) \<Rightarrow>
        case ray_color e cam world r (max_depth cam) g1 of (col, g2, n) \<Rightarrow> (col, g2))"

definition take_sample ::
  "('w, 'm, 'g) ctx \<Rightarrow> int \<Rightarrow> int \<Rightarrow> int \<Rightarrow> color \<Rightarrow> 'g render_state \<Rightarrow> color \<times> 'g render_state" where
  "take_sample c i j sample pixel_color s =
     (case one_sample (ctx_env c) (ctx_cam c) (ctx_vp c) (ctx_world c) i j (rng s) of
        (col, g1) \<Rightarrow> (plus_assign pixel_color col, emit (Sample i j sample) (s \<lparr> rng := g1 \<rparr>)))"

text \<open>
  \<open>for (int sample = 0; sample < sample_count && !should_stop.load(); sample++)\<close>, from the
  evaluation of its condition at \<open>sample\<close>.
\<close>

function sample_loop ::
  "('w, 'm, 'g) ctx \<Rightarrow> int \<Rightarrow> int \<Rightarrow> int \<Rightarrow> color \<Rightarrow> 'g render_state \<Rightarrow> color \<times> 'g render_state" where
  "sample_loop c i j sample pixel_color s =
     (if sample < sample_count (ctx_cam c) then
        if should_stop c (polls s) then (pixel_color, polled c (Sample_start i j sample) s)
        else case take_sample c i j sample pixel_color (polled c (Sample_start i j sample) s) of
               (pixel_color1, s1) \<Rightarrow> sample_loop c i j (sample + 1) pixel_color1 s1
      else (pixel_color, s))"
  by pat_completeness auto
termination
  by (relation "measure (\<lambda>(c, i, j, sample, pixel_color, s). nat (sample_count (ctx_cam c) - sample))")
     auto

declare sample_loop.simps [simp del]

subsection \<open>Finishing a pixel\<close>

text \<open>
  The average of the samples, gamma corrected, clamped and scaled to three bytes. The
  literal \<open>0.999\<close> is the \<open>double\<close> nearest to it.
\<close>

definition intensity :: interval where
  "intensity = \<lparr> imin = 0.000, imax = Bound (round_double 0.999) \<rparr>"

text \<open>
  \<open>double scale = 1.0 / sample_count\<close>. With a sample count of 0 this is a division by zero,
  undefined in C++; where the platform makes it an infinity, the colour of the pixel, which
  is \<open>(0, 0, 0)\<close> then, becomes a NaN by the multiplication. Neither is a value of the model:
  the scale is \<open>None\<close>.
\<close>

definition pixel_scale :: "camera \<Rightarrow> real option" where
  "pixel_scale cam =
     (if sample_count cam = 0 then None
      else Some (round_double (1.0 / real_of_int (sample_count cam))))"

text \<open>
  Without a scale the bytes are left open (they are zeros here), and the invocation as a
  whole is undefined: see \<open>render_to_buffer_with_progress\<close>, which discards the state then.
\<close>

definition pixel_bytes :: "('w, 'm, 'g) env \<Rightarrow> camera \<Rightarrow> color \<Rightarrow> byte \<times> byte \<times> byte" where
  "pixel_bytes e cam pixel_color =
     (case pixel_scale cam of
        None \<Rightarrow> (0, 0, 0)
      | Some scale \<Rightarrow>
          let pixel_color1 = times_assign pixel_color scale;
              r_val = linear_to_gamma e (vx pixel_color1);
              g_val = linear_to_gamma e (vy pixel_color1);
              b_val = linear_to_gamma e (vz pixel_color1)
          in (to_byte (256 * clamp intensity r_val),
              to_byte (256 * clamp intensity g_val),
              to_byte (256 * clamp intensity b_val)))"

text \<open>
  The three stores under the lock. A store \<open>buffer[k] = b\<close> outside the vector is undefined
  in the source and changes nothing in the model; the loop indexes inside the buffer only.
\<close>

definition write_pixel ::
  "('w, 'm, 'g) ctx \<Rightarrow> int \<Rightarrow> int \<Rightarrow> color \<Rightarrow> 'g render_state \<Rightarrow> 'g render_state" where
  "write_pixel c i j pixel_color s =
     (case pixel_bytes (ctx_env c) (ctx_cam c) pixel_color of
        (r_byte, g_byte, b_byte) \<Rightarrow>
          let idx = nat ((j * image_width (ctx_cam c) + i) * 3)
          in emit (Write i j r_byte g_byte b_byte)
               (s \<lparr> buffer := (buffer s)[idx := r_byte, idx + 1 := g_byte, idx + 2 := b_byte] \<rparr>))"

text \<open>\<open>completed_pixels++; pixels_since_update++;\<close> and the store of the progress.\<close>

definition report_progress :: "('w, 'm, 'g) ctx \<Rightarrow> 'g render_state \<Rightarrow> 'g render_state" where
  "report_progress c s =
     (let completed = completed_pixels s + 1;
          current_progress = float_progress completed (total_pixels c)
      in emit (Progress current_progress)
           (s \<lparr> completed_pixels := completed,
                pixels_since_update := pixels_since_update s + 1,
                progress := current_progress \<rparr>))"

text \<open>
  The throttled notification after a pixel. (The source also prints the progress every 10
  percent here. What the loop prints to \<open>std::cout\<close>, here and elsewhere, and the static
  variable of this printing touch nothing else and are left out; the final message is the
  \<open>outcome\<close> below.)
\<close>

definition notify_update :: "('w, 'm, 'g) ctx \<Rightarrow> 'g render_state \<Rightarrow> 'g render_state" where
  "notify_update c s =
     (let now = steady_clock_now c (clock_reads s);
          s1 = emit (Clock_read now) (s \<lparr> clock_reads := Suc (clock_reads s) \<rparr>);
          time_for_update = (now - last_update_time s1 \<ge> update_interval);
          enough_pixels = (pixels_since_update s1 \<ge> update_frequency c)
      in if time_for_update \<or> enough_pixels \<or> completed_pixels s1 = total_pixels c
         then emit (Update_pixel now)
                (s1 \<lparr> texture_needs_update := True,
                      pixels_since_update := 0,
                      last_update_time := now \<rparr>)
         else s1)"

definition finish_pixel ::
  "('w, 'm, 'g) ctx \<Rightarrow> int \<Rightarrow> int \<Rightarrow> color \<Rightarrow> 'g render_state \<Rightarrow> 'g render_state" where
  "finish_pixel c i j pixel_color s =
     notify_update c (report_progress c (write_pixel c i j pixel_color s))"

subsection \<open>The loops over pixels and rows\<close>

text \<open>
  \<open>for (int i = 0; i < image_width && !should_stop.load(); i++)\<close> in row \<open>j\<close>, from the
  evaluation of its condition at \<open>i\<close>; the \<open>break\<close> after the samples leaves it.
\<close>

function pixel_loop ::
  "('w, 'm, 'g) ctx \<Rightarrow> int \<Rightarrow> int \<Rightarrow> 'g render_state \<Rightarrow> 'g render_state" where
  "pixel_loop c j i s =
     (if i < image_width (ctx_cam c) then
        if should_stop c (polls s) then polled c (Pixel_start i j) s
        else case sample_loop c i j 0 (Vec3 0 0 0) (polled c (Pixel_start i j) s) of
               (pixel_color, s1) \<Rightarrow>
                 if should_stop c (polls s1) then polled c (Samples_done i j) s1
                 else pixel_loop c j (i + 1)
                        (finish_pixel c i j pixel_color (polled c (Samples_done i j) s1))
      else s)"
  by pat_completeness auto
termination
  by (relation "measure (\<lambda>(c, j, i, s). nat (image_width (ctx_cam c) - i))") auto

declare pixel_loop.simps [simp del]

text \<open>The notification at the end of a row: every 5 percent of the rows.\<close>

definition row_end :: "('w, 'm, 'g) ctx \<Rightarrow> int \<Rightarrow> 'g render_state \<Rightarrow> 'g render_state" where
  "row_end c j s =
     (if j smod max 1 (image_height (ctx_vp c) sdiv 20) = 0
      then emit (Update_row j) (s \<lparr> texture_needs_update := True \<rparr>)
      else s)"

text \<open>
  \<open>for (int j = 0; j < image_height && !should_stop.load(); j++)\<close>, from the evaluation of
  its condition at \<open>j\<close>.
\<close>

function row_loop ::
  "('w, 'm, 'g) ctx \<Rightarrow> int \<Rightarrow> 'g render_state \<Rightarrow> 'g render_state" where
  "row_loop c j s =
     (if j < image_height (ctx_vp c) then
        if should_stop c (polls s) then polled c (Row_start j) s
        else row_loop c (j + 1) (row_end c j (pixel_loop c j 0 (polled c (Row_start j) s)))
      else s)"
  by pat_completeness auto
termination
  by (relation "measure (\<lambda>(c, j, s). nat (image_height (ctx_vp c) - j))") auto

declare row_loop.simps [simp del]

subsection \<open>The two entry points\<close>

text \<open>
  What an invocation can fail with. Before the first pixel: undefined behaviour (in
  \<open>initialize\<close>, or the product \<open>image_width * image_height * 3\<close> outside the range of
  \<open>int\<close>), and the exception of \<open>buffer.resize\<close> for a negative size, which the conversion
  to \<open>size_t\<close> makes larger than any vector. At the first pixel that is finished: the
  division by a sample count of 0.
\<close>

datatype error = Undefined_behaviour | Length_error

text \<open>The terminal state: which of the two final messages the worker prints.\<close>

datatype outcome = Completed | Cancelled

definition render_ctx ::
  "('w, 'm, 'g) env \<Rightarrow> camera \<Rightarrow> viewport \<Rightarrow> 'w \<Rightarrow> (nat \<Rightarrow> bool) \<Rightarrow> (nat \<Rightarrow> real)
     \<Rightarrow> ('w, 'm, 'g) ctx" where
  "render_ctx e cam vp world stop clock =
     \<lparr> ctx_env = e, ctx_cam = cam, ctx_vp = vp, ctx_world = world,
       should_stop = stop, steady_clock_now = clock \<rparr>"

definition initial_state ::
  "('w, 'm, 'g) ctx \<Rightarrow> byte list \<Rightarrow> real \<Rightarrow> bool \<Rightarrow> 'g \<Rightarrow> 'g render_state" where
  "initial_state c buffer0 progress0 update0 g =
     \<lparr> buffer = fill (resize buffer0 (nat (total_pixels c * 3))) 0,
       progress = progress0,
       texture_needs_update = update0,
       completed_pixels = 0,
       pixels_since_update = 0,
       last_update_time = steady_clock_now c 0,
       rng = g,
       polls = 0,
       clock_reads = 1,
       trace = [Clock_read (steady_clock_now c 0)] \<rparr>"

text \<open>
  \<open>camera::render_to_buffer_with_progress\<close>. The arguments after the scene are the contents
  of \<open>buffer\<close>, \<open>progress\<close> and \<open>texture_needs_update\<close> at the call, the two signals, and the
  state of the random number generator at the call. The mutex is not modelled: the
  embedding follows the worker alone.
\<close>

definition render_to_buffer_with_progress ::
  "('w, 'm, 'g) env \<Rightarrow> camera \<Rightarrow> 'w \<Rightarrow> byte list \<Rightarrow> real \<Rightarrow> bool \<Rightarrow> (nat \<Rightarrow> bool) \<Rightarrow> (nat \<Rightarrow> real)
     \<Rightarrow> 'g \<Rightarrow> error + outcome \<times> 'g render_state" where
  "render_to_buffer_with_progress e cam world buffer0 progress0 update0 stop clock g =
     (case initialize cam of
        None \<Rightarrow> Inl Undefined_behaviour
      | Some vp \<Rightarrow>
          let c = render_ctx e cam vp world stop clock;
              size = image_width cam * image_height vp * 3
          in if size < INT_MIN \<or> INT_MAX < size then Inl Undefined_behaviour
             else if size < 0 then Inl Length_error
             else let s = row_loop c 0 (initial_state c buffer0 progress0 update0 g)
                  in if pixel_scale cam = None \<and> 0 < completed_pixels s
                     then Inl Undefined_behaviour
                     else Inr (if should_stop c (polls s) then Cancelled else Completed,
                               polled c Render_end s))"

text \<open>
  \<open>camera::render_to_buffer\<close>: the same with a progress of 0, a flag that nobody sets and
  an update flag that nobody reads; what remains of it is the buffer.
\<close>

definition render_to_buffer ::
  "('w, 'm, 'g) env \<Rightarrow> camera \<Rightarrow> 'w \<Rightarrow> byte list \<Rightarrow> (nat \<Rightarrow> real) \<Rightarrow> 'g \<Rightarrow> error + byte list" where
  "render_to_buffer e cam world buffer0 clock g =
     (case render_to_buffer_with_progress e cam world buffer0 0.0 False (\<lambda>n. False) clock g of
        Inl err \<Rightarrow> Inl err
      | Inr (oc, s) \<Rightarrow> Inr (buffer s))"

section \<open>What the claims speak about\<close>

subsection \<open>The cancellation flag\<close>

text \<open>
  The flag is set once by the controller and never cleared during an invocation
  (src/main.cpp clears it only before it starts the worker): a load that returned true is
  followed by loads that return true.
\<close>

definition write_once :: "(nat \<Rightarrow> bool) \<Rightarrow> bool" where
  "write_once stop \<longleftrightarrow> (\<forall>n. stop n \<longrightarrow> stop (Suc n))"

text \<open>Some load of the flag among the actions returned true.\<close>

fun stop_observed :: "event list \<Rightarrow> bool" where
  "stop_observed [] = False"
| "stop_observed (Poll site b # evs) = (b \<or> stop_observed evs)"
| "stop_observed (ev # evs) = stop_observed evs"

subsection \<open>Properties of every action, given the actions before it\<close>

text \<open>
  \<open>each_event ok pre evs\<close>: every action \<open>ev\<close> of \<open>evs\<close> satisfies \<open>ok before ev\<close>, where
  \<open>before\<close> is \<open>pre\<close> followed by the actions of \<open>evs\<close> that precede \<open>ev\<close>.
\<close>

fun each_event :: "(event list \<Rightarrow> event \<Rightarrow> bool) \<Rightarrow> event list \<Rightarrow> event list \<Rightarrow> bool" where
  "each_event ok pre [] = True"
| "each_event ok pre (ev # evs) = (ok pre ev \<and> each_event ok (pre @ [ev]) evs)"



text \<open>
  Cooperative cancellation. Before an action on the pixel \<open>(i, j)\<close> the flag was read at
  the start of its row and at the start of the pixel and was clear; the flag is read
  directly before every sample and directly before the write of the pixel, and was clear;
  and after a load that returned true there is no sample, no write, no store of the
  progress and no notification for a pixel.
\<close>

definition cooperative :: "event list \<Rightarrow> event \<Rightarrow> bool" where
  "cooperative pre ev =
     (case ev of
        Poll site b \<Rightarrow>
          (case site of
             Pixel_start i j \<Rightarrow> Poll (Row_start j) False \<in> set pre
           | Sample_start i j k \<Rightarrow> Poll (Pixel_start i j) False \<in> set pre
           | Samples_done i j \<Rightarrow> Poll (Pixel_start i j) False \<in> set pre
           | _ \<Rightarrow> True)
      | Sample i j k \<Rightarrow>
          pre \<noteq> [] \<and> last pre = Poll (Sample_start i j k) False \<and> \<not> stop_observed pre
      | Write i j r g b \<Rightarrow>
          pre \<noteq> [] \<and> last pre = Poll (Samples_done i j) False \<and> \<not> stop_observed pre
      | Progress v \<Rightarrow> \<not> stop_observed pre
      | Clock_read now \<Rightarrow> True
      | Update_pixel now \<Rightarrow> \<not> stop_observed pre
      | Update_row j \<Rightarrow> True)"

subsection \<open>The notifications\<close>














subsection \<open>The progress\<close>

text \<open>The writes of pixels and the stores of the progress, in their order.\<close>

datatype store = Pixel_written | Progress_set real

fun stores :: "event list \<Rightarrow> store list" where
  "stores [] = []"
| "stores (Write i j r g b # evs) = Pixel_written # stores evs"
| "stores (Progress v # evs) = Progress_set v # stores evs"
| "stores (ev # evs) = stores evs"

fun progress_values :: "event list \<Rightarrow> real list" where
  "progress_values [] = []"
| "progress_values (Progress v # evs) = v # progress_values evs"
| "progress_values (ev # evs) = progress_values evs"

subsection \<open>The image\<close>

text \<open>
  The colours of the first \<open>n\<close> samples of the pixel \<open>(i, j)\<close>, drawn one after the other
  from the generator state \<open>g\<close>, and the state they leave.
\<close>

fun sampled_colors ::
  "('w, 'm, 'g) env \<Rightarrow> camera \<Rightarrow> viewport \<Rightarrow> 'w \<Rightarrow> int \<Rightarrow> int \<Rightarrow> nat \<Rightarrow> 'g \<Rightarrow> color list \<times> 'g" where
  "sampled_colors e cam vp world i j 0 g = ([], g)"
| "sampled_colors e cam vp world i j (Suc n) g =
     (case sampled_colors e cam vp world i j n g of (cols, g1) \<Rightarrow>
        case one_sample e cam vp world i j g1 of (col, g2) \<Rightarrow> (cols @ [col], g2))"

text \<open>
  Pixels are numbered in row-major order: pixel \<open>k\<close> is column \<open>k mod image_width\<close> of row
  \<open>k div image_width\<close>. \<open>rng_before \<dots> g k\<close> is the generator state when pixel \<open>k\<close> begins in
  a render that started from \<open>g\<close> and took all samples of the pixels before.
\<close>

fun rng_before ::
  "('w, 'm, 'g) env \<Rightarrow> camera \<Rightarrow> viewport \<Rightarrow> 'w \<Rightarrow> 'g \<Rightarrow> nat \<Rightarrow> 'g" where
  "rng_before e cam vp world g 0 = g"
| "rng_before e cam vp world g (Suc k) =
     snd (sampled_colors e cam vp world (int k mod image_width cam) (int k div image_width cam)
            (nat (sample_count cam)) (rng_before e cam vp world g k))"

definition pixel_colors ::
  "('w, 'm, 'g) env \<Rightarrow> camera \<Rightarrow> viewport \<Rightarrow> 'w \<Rightarrow> 'g \<Rightarrow> nat \<Rightarrow> color list" where
  "pixel_colors e cam vp world g k =
     fst (sampled_colors e cam vp world (int k mod image_width cam) (int k div image_width cam)
            (nat (sample_count cam)) (rng_before e cam vp world g k))"

text \<open>
  The three bytes of pixel \<open>k\<close>: what \<open>pixel_bytes\<close> makes of the sampled colours of the
  pixel, accumulated in their order.
\<close>

definition expected_pixel ::
  "('w, 'm, 'g) env \<Rightarrow> camera \<Rightarrow> viewport \<Rightarrow> 'w \<Rightarrow> 'g \<Rightarrow> nat \<Rightarrow> byte list" where
  "expected_pixel e cam vp world g k =
     (case pixel_bytes e cam (foldl plus_assign (Vec3 0 0 0) (pixel_colors e cam vp world g k)) of
        (r_byte, g_byte, b_byte) \<Rightarrow> [r_byte, g_byte, b_byte])"

text \<open>The bytes of the first \<open>n\<close> pixels, interleaved and in row-major order.\<close>

definition expected_image ::
  "('w, 'm, 'g) env \<Rightarrow> camera \<Rightarrow> viewport \<Rightarrow> 'w \<Rightarrow> 'g \<Rightarrow> nat \<Rightarrow> byte list" where
  "expected_image e cam vp world g n = concat (map (expected_pixel e cam vp world g) [0..<n])"

text \<open>
  What a render that nobody cancels leaves in the buffer: the whole image, or the error of
  the configuration.
\<close>

definition rendered_image ::
  "('w, 'm, 'g) env \<Rightarrow> camera \<Rightarrow> 'w \<Rightarrow> 'g \<Rightarrow> error + byte list" where
  "rendered_image e cam world g =
     (case initialize cam of
        None \<Rightarrow> Inl Undefined_behaviour
      | Some vp \<Rightarrow>
          let size = image_width cam * image_height vp * 3
          in if size < INT_MIN \<or> INT_MAX < size then Inl Undefined_behaviour
             else if size < 0 then Inl Length_error
             else if pixel_scale cam = None \<and> 0 < image_width cam * image_height vp
             then Inl Undefined_behaviour
             else Inr (expected_image e cam vp world g (nat (image_width cam * image_height vp))))"

subsection \<open>A small concrete scene\<close>

text \<open>
  A scene, materials and a generator to run the definitions on. The world \<open>Some m\<close> is a
  surface that every ray hits, with the material \<open>m\<close> and the normal \<open>(0, 1, 0)\<close>; the world
  \<open>None\<close> is empty. The material \<open>True\<close> scatters the incoming ray unchanged with the
  attenuation \<open>(1/2, 1/2, 1/2)\<close>; the material \<open>False\<close> absorbs. The generator is a counter.
  The gamma transform is the square root, rounded as the \<open>sqrt\<close> of IEEE 754 is.
\<close>

definition demo_env :: "(bool option, bool, nat) env" where
  "demo_env =
     \<lparr> hit = (\<lambda>world r ray_t. case world of
                None \<Rightarrow> None
              | Some m \<Rightarrow> Some \<lparr> rec_p = origin r, normal = Vec3 0 1 0, mat = m,
                                rec_t = 1, front_face = True \<rparr>),
       scatter = (\<lambda>m r_in rec g.
                    (if m then Some (Vec3 (1/2) (1/2) (1/2), r_in) else None, Suc g)),
       random_double = (\<lambda>g. (0, Suc g)),
       random_in_unit_disk = (\<lambda>g. (Vec3 0 0 0, Suc g)),
       linear_to_gamma = (\<lambda>a. if 0 < a then round_double (sqrt a) else 0),
       right_to_left = False \<rparr>"

definition demo_ray :: ray where
  "demo_ray = \<lparr> origin = Vec3 0 0 0, direction = Vec3 0 1 0 \<rparr>"

definition demo_rec :: "bool \<Rightarrow> bool hit_record" where
  "demo_rec m = \<lparr> rec_p = Vec3 0 0 0, normal = Vec3 0 1 0, mat = m, rec_t = 1, front_face = True \<rparr>"

text \<open>
  The default camera with a given width and aspect ratio and without antialiasing: one
  sample through the centre of every pixel.
\<close>

definition small_camera :: "int \<Rightarrow> real \<Rightarrow> camera" where
  "small_camera width ratio =
     default_camera \<lparr> aspect_ratio := ratio, image_width := width, enable_antialiasing := False \<rparr>"

text \<open>
  The configuration of the end-to-end scenario of the specification: 20 by 11 pixels (the
  aspect ratio is the \<open>double\<close> \<open>20.0 / 11.0\<close>), one sample per pixel, depth 1, no
  antialiasing.
\<close>

definition scenario_camera :: camera where
  "scenario_camera =
     default_camera \<lparr> aspect_ratio := round_double (20 / 11), image_width := 20,
                      samples_per_pixel := 1,
                      max_depth := 1, enable_antialiasing := False \<rparr>"



section \<open>The invariants of the loops\<close>

text \<open>The condition of the throttled notification, on the state after the progress store.\<close>

definition update_due :: "('w, 'm, 'g) ctx \<Rightarrow> 'g render_state \<Rightarrow> bool" where
  "update_due c s \<longleftrightarrow>
     steady_clock_now c (clock_reads s) - last_update_time s \<ge> update_interval
     \<or> pixels_since_update s \<ge> update_frequency c
     \<or> completed_pixels s = total_pixels c"




text \<open>
  The progress: the stores so far are a write and the store of the \<open>float\<close> quotient of \<open>k\<close>
  and the number of pixels for every \<open>k\<close> up to the number of completed pixels, and the
  progress is the last value stored (the caller's value \<open>p0\<close> while no pixel is complete).
\<close>

definition progress_inv :: "('w, 'm, 'g) ctx \<Rightarrow> real \<Rightarrow> 'g render_state \<Rightarrow> bool" where
  "progress_inv c p0 s \<longleftrightarrow>
     0 \<le> completed_pixels s
     \<and> stores (trace s)
         = concat (map (\<lambda>k. [Pixel_written, Progress_set (float_progress k (total_pixels c))])
                    [1..completed_pixels s])
     \<and> progress_values (trace s)
         = map (\<lambda>k. float_progress k (total_pixels c)) [1..completed_pixels s]
     \<and> progress s = (if completed_pixels s = 0 then p0
                      else float_progress (completed_pixels s) (total_pixels c))"

text \<open>
  Cooperation: the actions so far are cooperative, and a load that returned true is
  followed by loads that return true.
\<close>

definition coop_inv :: "('w, 'm, 'g) ctx \<Rightarrow> 'g render_state \<Rightarrow> bool" where
  "coop_inv c s \<longleftrightarrow>
     each_event cooperative [] (trace s)
     \<and> (stop_observed (trace s) \<longrightarrow> should_stop c (polls s))"

definition coop_row :: "('w, 'm, 'g) ctx \<Rightarrow> int \<Rightarrow> 'g render_state \<Rightarrow> bool" where
  "coop_row c j s \<longleftrightarrow> coop_inv c s \<and> Poll (Row_start j) False \<in> set (trace s)"

definition coop_pixel :: "('w, 'm, 'g) ctx \<Rightarrow> int \<Rightarrow> int \<Rightarrow> 'g render_state \<Rightarrow> bool" where
  "coop_pixel c j i s \<longleftrightarrow> coop_row c j s \<and> Poll (Pixel_start i j) False \<in> set (trace s)"

text \<open>
  The buffer: the completed pixels are the first pixels in row-major order, the buffer holds
  their expected bytes followed by zeros, and a load that returned true is followed by
  loads that return true.
\<close>

definition rng_at :: "('w, 'm, 'g) ctx \<Rightarrow> 'g \<Rightarrow> nat \<Rightarrow> 'g" where
  "rng_at c g0 k = rng_before (ctx_env c) (ctx_cam c) (ctx_vp c) (ctx_world c) g0 k"

definition samples_at :: "('w, 'm, 'g) ctx \<Rightarrow> 'g \<Rightarrow> int \<Rightarrow> int \<Rightarrow> nat \<Rightarrow> color list \<times> 'g" where
  "samples_at c g0 j i n =
     sampled_colors (ctx_env c) (ctx_cam c) (ctx_vp c) (ctx_world c) i j n
       (rng_at c g0 (nat (j * image_width (ctx_cam c) + i)))"

definition rendered :: "('w, 'm, 'g) ctx \<Rightarrow> 'g \<Rightarrow> 'g render_state \<Rightarrow> bool" where
  "rendered c g0 s \<longleftrightarrow>
     0 \<le> completed_pixels s \<and> completed_pixels s \<le> total_pixels c
     \<and> buffer s = expected_image (ctx_env c) (ctx_cam c) (ctx_vp c) (ctx_world c) g0
                    (nat (completed_pixels s))
                  @ replicate (3 * nat (total_pixels c - completed_pixels s)) 0
     \<and> (stop_observed (trace s) \<longrightarrow> should_stop c (polls s))"

text \<open>The loop is about to begin the pixel \<open>(i, j)\<close>, all pixels before it complete.\<close>

definition at_pixel :: "('w, 'm, 'g) ctx \<Rightarrow> 'g \<Rightarrow> int \<Rightarrow> int \<Rightarrow> 'g render_state \<Rightarrow> bool" where
  "at_pixel c g0 j i s \<longleftrightarrow>
     completed_pixels s = j * image_width (ctx_cam c) + i
     \<and> rng s = rng_at c g0 (nat (j * image_width (ctx_cam c) + i))"

text \<open>The flag was seen set inside the loops, which left a pixel undone (or had none to do).\<close>

definition cut_short :: "('w, 'm, 'g) ctx \<Rightarrow> 'g render_state \<Rightarrow> bool" where
  "cut_short c s \<longleftrightarrow>
     stop_observed (trace s) \<and> (completed_pixels s < total_pixels c \<or> total_pixels c = 0)"

text \<open>
  The predicates of the proof rule: at the condition of the row loop, of the pixel loop and
  of the sample loop, after the sample loop, after the pixel loop, and after the row loop.
\<close>

definition row_head :: "('w, 'm, 'g) ctx \<Rightarrow> 'g \<Rightarrow> int \<Rightarrow> 'g render_state \<Rightarrow> bool" where
  "row_head c g0 j s \<longleftrightarrow>
     rendered c g0 s \<and> 0 \<le> j \<and> j \<le> image_height (ctx_vp c)
     \<and> (cut_short c s \<or> \<not> stop_observed (trace s) \<and> at_pixel c g0 j 0 s)"

definition pixel_head :: "('w, 'm, 'g) ctx \<Rightarrow> 'g \<Rightarrow> int \<Rightarrow> int \<Rightarrow> 'g render_state \<Rightarrow> bool" where
  "pixel_head c g0 j i s \<longleftrightarrow>
     rendered c g0 s \<and> 0 \<le> j \<and> j < image_height (ctx_vp c)
     \<and> 0 \<le> i \<and> i \<le> image_width (ctx_cam c)
     \<and> \<not> stop_observed (trace s) \<and> at_pixel c g0 j i s"

definition sample_head ::
  "('w, 'm, 'g) ctx \<Rightarrow> 'g \<Rightarrow> int \<Rightarrow> int \<Rightarrow> int \<Rightarrow> color \<Rightarrow> 'g render_state \<Rightarrow> bool" where
  "sample_head c g0 j i k pc s \<longleftrightarrow>
     rendered c g0 s \<and> 0 \<le> j \<and> j < image_height (ctx_vp c)
     \<and> 0 \<le> i \<and> i < image_width (ctx_cam c)
     \<and> \<not> stop_observed (trace s)
     \<and> completed_pixels s = j * image_width (ctx_cam c) + i
     \<and> 0 \<le> k \<and> k \<le> max 0 (sample_count (ctx_cam c))
     \<and> pc = foldl plus_assign (Vec3 0 0 0) (fst (samples_at c g0 j i (nat k)))
     \<and> rng s = snd (samples_at c g0 j i (nat k))"

definition samples_tail ::
  "('w, 'm, 'g) ctx \<Rightarrow> 'g \<Rightarrow> int \<Rightarrow> int \<Rightarrow> color \<Rightarrow> 'g render_state \<Rightarrow> bool" where
  "samples_tail c g0 j i pc s \<longleftrightarrow>
     rendered c g0 s \<and> 0 \<le> j \<and> j < image_height (ctx_vp c)
     \<and> 0 \<le> i \<and> i < image_width (ctx_cam c)
     \<and> completed_pixels s = j * image_width (ctx_cam c) + i
     \<and> (stop_observed (trace s)
        \<or> pc = foldl plus_assign (Vec3 0 0 0) (fst (samples_at c g0 j i (nat (sample_count (ctx_cam c)))))
          \<and> rng s = snd (samples_at c g0 j i (nat (sample_count (ctx_cam c)))))"

definition row_tail :: "('w, 'm, 'g) ctx \<Rightarrow> 'g \<Rightarrow> int \<Rightarrow> 'g render_state \<Rightarrow> bool" where
  "row_tail c g0 j s \<longleftrightarrow>
     rendered c g0 s \<and> 0 \<le> j \<and> j < image_height (ctx_vp c)
     \<and> (cut_short c s \<or> \<not> stop_observed (trace s) \<and> at_pixel c g0 (j + 1) 0 s)"

definition loops_done :: "('w, 'm, 'g) ctx \<Rightarrow> 'g \<Rightarrow> 'g render_state \<Rightarrow> bool" where
  "loops_done c g0 s \<longleftrightarrow>
     rendered c g0 s
     \<and> (cut_short c s \<or> \<not> stop_observed (trace s) \<and> completed_pixels s = total_pixels c)"

section \<open>Facts about the rounding\<close>

lemma rne_of_int [simp]: "rne (real_of_int n) = n"
  by (simp add: rne_def)

lemma rne_mono: "x \<le> y \<Longrightarrow> rne x \<le> rne y"
proof -
  assume xy: "x \<le> y"
  have fl: "\<lfloor>x\<rfloor> \<le> \<lfloor>y\<rfloor>" using xy by (rule floor_mono)
  show ?thesis
  proof (cases "\<lfloor>x\<rfloor> = \<lfloor>y\<rfloor>")
    case True
    with xy show ?thesis by (auto simp: rne_def Let_def)
  next
    case False
    with fl have "\<lfloor>x\<rfloor> + 1 \<le> \<lfloor>y\<rfloor>" by simp
    moreover have "rne x \<le> \<lfloor>x\<rfloor> + 1" by (simp add: rne_def Let_def)
    moreover have "\<lfloor>y\<rfloor> \<le> rne y" by (simp add: rne_def Let_def)
    ultimately show ?thesis by linarith
  qed
qed

lemma binade_bounds:
  assumes "x \<noteq> 0"
  shows "2 powi binade x \<le> \<bar>x\<bar>" and "\<bar>x\<bar> < 2 powi (binade x + 1)"
proof -
  have "2 powi binade x \<le> \<bar>x\<bar> \<and> \<bar>x\<bar> < 2 powi (binade x + 1)"
  proof (cases "1 \<le> \<bar>x\<bar>")
    case True
    define n where "n = \<lfloor>\<bar>x\<bar>\<rfloor>"
    have n: "0 < n" using True by (simp add: n_def)
    have b: "binade x = bitlen n - 1" using True by (simp add: binade_def n_def)
    have b0: "0 \<le> bitlen n - 1" using n by (auto simp: bitlen_alt_def)
    note bb = bitlen_bounds [OF n]
    have "real_of_int (2 ^ nat (bitlen n - 1)) \<le> real_of_int n" using bb by (simp only: of_int_le_iff)
    also have "real_of_int n \<le> \<bar>x\<bar>" by (simp add: n_def)
    finally have lo: "2 powi binade x \<le> \<bar>x\<bar>" using b0 by (simp add: b power_int_nonneg_exp)
    have "n + 1 \<le> 2 ^ nat (bitlen n)" using bb by simp
    then have "real_of_int (n + 1) \<le> real_of_int (2 ^ nat (bitlen n))" by (simp only: of_int_le_iff)
    moreover have "\<bar>x\<bar> < real_of_int (n + 1)" by (simp add: n_def)
    ultimately have "\<bar>x\<bar> < real_of_int (2 ^ nat (bitlen n))" by linarith
    then have hi: "\<bar>x\<bar> < 2 powi (binade x + 1)" using b0 by (simp add: b power_int_nonneg_exp)
    from lo hi show ?thesis ..
  next
    case False
    define y where "y = 1 / \<bar>x\<bar>"
    define m where "m = \<lceil>y\<rceil> - 1"
    have x: "0 < \<bar>x\<bar>" "\<bar>x\<bar> < 1" using False assms by simp_all
    have y: "1 < y" using x by (simp add: y_def)
    have xy: "\<bar>x\<bar> = 1 / y" by (simp add: y_def)
    have m: "0 < m" using y by (simp add: m_def less_ceiling_iff)
    have my: "real_of_int m < y" "y \<le> real_of_int m + 1"
      by (simp_all add: m_def) linarith+
    have b: "binade x = - bitlen m" using False by (simp add: binade_def m_def y_def)
    have b1: "1 \<le> bitlen m" using m by (auto simp: bitlen_alt_def)
    note bb = bitlen_bounds [OF m]
    have "m + 1 \<le> 2 ^ nat (bitlen m)" using bb by simp
    then have "real_of_int (m + 1) \<le> real_of_int (2 ^ nat (bitlen m))" by (simp only: of_int_le_iff)
    with my(2) have "y \<le> 2 ^ nat (bitlen m)" by simp
    then have "1 / 2 ^ nat (bitlen m) \<le> 1 / y" using y by (intro divide_left_mono) simp_all
    then have lo: "2 powi binade x \<le> \<bar>x\<bar>"
      using b1 by (simp add: b xy power_int_minus power_int_nonneg_exp inverse_eq_divide)
    have "real_of_int (2 ^ nat (bitlen m - 1)) \<le> real_of_int m" using bb by (simp only: of_int_le_iff)
    then have "(2::real) ^ nat (bitlen m - 1) \<le> real_of_int m" by simp
    with my(1) have "2 ^ nat (bitlen m - 1) < y" by linarith
    then have "1 / y < 1 / 2 ^ nat (bitlen m - 1)" using y by (intro divide_strict_left_mono) simp_all
    moreover have "2 powi (binade x + 1) = (1::real) / 2 ^ nat (bitlen m - 1)"
    proof -
      have eq: "binade x + 1 = - (bitlen m - 1)" by (simp add: b)
      have "(2::real) powi (- (bitlen m - 1)) = 1 / 2 powi (bitlen m - 1)"
        by (rule power_int_minus_divide)
      also have "(2::real) powi (bitlen m - 1) = 2 ^ nat (bitlen m - 1)"
        using b1 by (simp add: power_int_nonneg_exp)
      finally show ?thesis by (simp only: eq)
    qed
    ultimately have hi: "\<bar>x\<bar> < 2 powi (binade x + 1)" by (simp add: xy)
    from lo hi show ?thesis ..
  qed
  then show "2 powi binade x \<le> \<bar>x\<bar>" and "\<bar>x\<bar> < 2 powi (binade x + 1)" by simp_all
qed

lemma binade_eqI:
  assumes "2 powi e \<le> \<bar>x\<bar>" "\<bar>x\<bar> < 2 powi (e + 1)"
  shows "binade x = e"
proof -
  have "(0::real) < 2 powi e" by simp
  with assms(1) have "0 < \<bar>x\<bar>" by linarith
  then have x: "x \<noteq> 0" by simp
  note bb = binade_bounds [OF x]
  have "(2::real) powi e < 2 powi (binade x + 1)" using assms(1) bb(2) by linarith
  then have "e < binade x + 1"
    by (metis not_le power_int_increasing one_le_numeral leD linorder_not_less)
  moreover have "(2::real) powi binade x < 2 powi (e + 1)" using assms(2) bb(1) by linarith
  then have "binade x < e + 1"
    by (metis not_le power_int_increasing one_le_numeral leD linorder_not_less)
  ultimately show ?thesis by simp
qed

lemma binade_mono:
  assumes "0 < x" "x \<le> y"
  shows "binade x \<le> binade y"
proof -
  have x: "x \<noteq> 0" and y: "y \<noteq> 0" using assms by simp_all
  have "2 powi binade x \<le> \<bar>x\<bar>" by (rule binade_bounds(1) [OF x])
  also have "\<bar>x\<bar> \<le> \<bar>y\<bar>" using assms by simp
  also have "\<bar>y\<bar> < 2 powi (binade y + 1)" by (rule binade_bounds(2) [OF y])
  finally have "(2::real) powi binade x < 2 powi (binade y + 1)" .
  then have "binade x < binade y + 1"
    by (metis not_le power_int_increasing one_le_numeral leD linorder_not_less)
  then show ?thesis by simp
qed

lemma pow2_int: "0 \<le> k \<Longrightarrow> (2::real) powi k = real_of_int (2 ^ nat k)"
  by (simp add: power_int_nonneg_exp)

lemma rne_power2 [simp]: "rne (2 ^ n) = 2 ^ n"
  using rne_of_int [of "2 ^ n"] by simp

lemma rne_nonneg: "0 \<le> x \<Longrightarrow> 0 \<le> rne x"
  using rne_mono [of 0 x] by (simp add: rne_def)

lemma round_to_0 [simp]: "round_to p emin 0 = 0"
  by (simp add: round_to_def rne_def)

lemma round_to_nonneg: "0 \<le> x \<Longrightarrow> 0 \<le> round_to p emin x"
  by (simp add: round_to_def Let_def rne_nonneg)

text \<open>A real that is a multiple of its quantum is a floating-point number.\<close>

lemma round_to_exact:
  assumes "x = real_of_int m * 2 powi k" and "max (binade x) emin - (int p - 1) \<le> k"
  shows "round_to p emin x = x"
proof -
  define E where "E = max (binade x) emin - (int p - 1)"
  have "x / 2 powi E = real_of_int m * (2 powi k / 2 powi E)" by (simp add: assms(1))
  also have "(2::real) powi k / 2 powi E = 2 powi (k - E)" by (simp add: power_int_diff)
  also have "\<dots> = real_of_int (2 ^ nat (k - E))" using assms(2) by (intro pow2_int) (simp add: E_def)
  finally have "x / 2 powi E = real_of_int (m * 2 ^ nat (k - E))" by simp
  then have "real_of_int (rne (x / 2 powi E)) = x / 2 powi E" by (simp only: rne_of_int)
  then show ?thesis by (simp add: round_to_def Let_def E_def [symmetric])
qed

lemma round_to_eval:
  assumes "2 powi e \<le> \<bar>x\<bar>" "\<bar>x\<bar> < 2 powi (e + 1)"
  shows "round_to p emin x
         = real_of_int (rne (x / 2 powi (max e emin - (int p - 1)))) * 2 powi (max e emin - (int p - 1))"
  by (simp add: round_to_def Let_def binade_eqI [OF assms])

lemma round_to_mono:
  assumes "0 \<le> x" "x \<le> y" and p: "0 < p"
  shows "round_to p emin x \<le> round_to p emin y"
proof (cases "x = 0")
  case True
  with assms show ?thesis by (simp add: round_to_nonneg)
next
  case False
  with assms have x: "0 < x" and y: "0 < y" by simp_all
  define ex where "ex = max (binade x) emin"
  define ey where "ey = max (binade y) emin"
  define qx :: real where "qx = 2 powi (ex - (int p - 1))"
  define qy :: real where "qy = 2 powi (ey - (int p - 1))"
  have rx: "round_to p emin x = real_of_int (rne (x / qx)) * qx"
    and ry: "round_to p emin y = real_of_int (rne (y / qy)) * qy"
    by (simp_all add: round_to_def Let_def qx_def qy_def ex_def ey_def)
  have q: "0 < qx" "0 < qy" by (simp_all add: qx_def qy_def)
  have le: "ex \<le> ey" using binade_mono [OF x assms(2)] by (simp add: ex_def ey_def)
  show ?thesis
  proof (cases "ex = ey")
    case True
    then have "qx = qy" by (simp add: qx_def qy_def)
    moreover have "rne (x / qy) \<le> rne (y / qy)"
      using assms(2) q(2) by (intro rne_mono divide_right_mono) simp_all
    ultimately show ?thesis using q(2) by (simp add: rx ry)
  next
    case False
    with le have lt: "ex < ey" by simp
    define B :: real where "B = 2 powi ey"
    have bin_y: "binade y = ey" using lt by (simp add: ex_def ey_def max_def split: if_splits)
    have "\<bar>x\<bar> < 2 powi (binade x + 1)" by (rule binade_bounds(2)) (use x in simp)
    also have "(2::real) powi (binade x + 1) \<le> 2 powi ey"
      using lt by (intro power_int_increasing) (simp_all add: ex_def)
    finally have xB: "x \<le> B" using x by (simp add: B_def)
    have "2 powi binade y \<le> \<bar>y\<bar>" by (rule binade_bounds(1)) (use y in simp)
    then have yB: "B \<le> y" using y by (simp add: B_def bin_y)
    have Bx: "B / qx = real_of_int (2 ^ nat (ey - ex + (int p - 1)))"
    proof -
      have "B / qx = 2 powi (ey - (ex - (int p - 1)))" by (simp add: B_def qx_def power_int_diff)
      also have "\<dots> = real_of_int (2 ^ nat (ey - (ex - (int p - 1))))"
        using lt by (intro pow2_int) simp
      finally show ?thesis by (simp add: algebra_simps)
    qed
    have By: "B / qy = real_of_int (2 ^ nat (int p - 1))"
    proof -
      have "B / qy = 2 powi (ey - (ey - (int p - 1)))" unfolding B_def qy_def
        by (rule power_int_diff [symmetric]) simp
      also have "\<dots> = 2 powi (int p - 1)" by simp
      also have "\<dots> = real_of_int (2 ^ nat (int p - 1))" using p by (intro pow2_int) simp
      finally show ?thesis .
    qed
    have "rne (x / qx) \<le> rne (B / qx)" using xB q(1) by (intro rne_mono divide_right_mono) simp_all
    then have "real_of_int (rne (x / qx)) \<le> B / qx" by (simp add: Bx)
    then have 1: "round_to p emin x \<le> B" using q(1) by (simp add: rx pos_le_divide_eq)
    have "rne (B / qy) \<le> rne (y / qy)" using yB q(2) by (intro rne_mono divide_right_mono) simp_all
    then have "B / qy \<le> real_of_int (rne (y / qy))" by (simp add: By)
    then have 2: "B \<le> round_to p emin y" using q(2) by (simp add: ry pos_divide_le_eq)
    from 1 2 show ?thesis by simp
  qed
qed

lemma binade_less:
  assumes "x \<noteq> 0" "\<bar>x\<bar> < 2 powi k"
  shows "binade x < k"
proof -
  have "2 powi binade x \<le> \<bar>x\<bar>" by (rule binade_bounds(1) [OF assms(1)])
  with assms(2) have "(2::real) powi binade x < 2 powi k" by linarith
  then show ?thesis
    by (metis not_le power_int_increasing one_le_numeral leD linorder_not_less)
qed

lemma round_to_int:
  assumes "\<bar>n\<bar> \<le> 2 ^ p" "emin \<le> 0" "0 < p"
  shows "round_to p emin (real_of_int n) = real_of_int n"
proof (cases "\<bar>n\<bar> = 2 ^ p")
  case True
  then have abs: "\<bar>real_of_int n\<bar> = 2 powi int p"
    by (metis of_int_abs of_int_numeral of_int_power power_int_of_nat)
  have b: "binade (real_of_int n) = int p"
    by (rule binade_eqI) (simp_all add: abs power_int_add)
  have "n = 2 ^ p \<or> n = - (2 ^ p)" using True by (auto simp: abs_if split: if_splits)
  then have "n = 1 * 2 ^ p \<or> n = (- 1) * 2 ^ p" by simp
  then obtain m :: int where "n = m * 2 ^ p" by blast
  then have n: "real_of_int n = real_of_int m * 2 powi int p" by simp
  show ?thesis
    by (rule round_to_exact [OF n]) (use assms in \<open>simp add: b\<close>)
next
  case False
  show ?thesis
  proof (cases "n = 0")
    case True
    then show ?thesis by simp
  next
    case n0: False
    from False assms(1) have "\<bar>n\<bar> < 2 ^ p" by simp
    then have "real_of_int \<bar>n\<bar> < real_of_int (2 ^ p)" by (simp only: of_int_less_iff)
    then have "\<bar>real_of_int n\<bar> < 2 powi int p" by simp
    then have "binade (real_of_int n) < int p" using n0 by (intro binade_less) simp_all
    then show ?thesis
      using assms by (intro round_to_exact [where m = n and k = 0]) simp_all
  qed
qed

lemma round_float_int: "\<bar>n\<bar> \<le> 16777216 \<Longrightarrow> round_float (real_of_int n) = real_of_int n"
  unfolding round_float_def by (rule round_to_int) simp_all

lemma round_double_int:
  "\<bar>n\<bar> \<le> 9007199254740992 \<Longrightarrow> round_double (real_of_int n) = real_of_int n"
  unfolding round_double_def by (rule round_to_int) simp_all

lemma round_float_mono: "0 \<le> x \<Longrightarrow> x \<le> y \<Longrightarrow> round_float x \<le> round_float y"
  unfolding round_float_def by (rule round_to_mono) simp_all

lemma round_float_1 [simp]: "round_float 1 = 1"
  using round_float_int [of 1] by simp

lemma round_float_0 [simp]: "round_float 0 = 0"
  by (simp add: round_float_def)

lemma round_double_0 [simp]: "round_double 0 = 0"
  by (simp add: round_double_def)

lemma round_float_below_one:
  assumes "0 \<le> x" "x \<le> 16777215 / 16777216"
  shows "round_float x < 1"
proof -
  have b: "binade (16777215 / 16777216) = - 1"
    by (rule binade_eqI) simp_all
  have "round_float (16777215 / 16777216) = 16777215 / 16777216"
    unfolding round_float_def
    by (rule round_to_exact [where m = 16777215 and k = "- 24"]) (simp_all add: b)
  with round_float_mono [OF assms] show ?thesis by simp
qed

lemma round_float_pos:
  assumes "1 \<le> n"
  shows "1 \<le> round_float (real_of_int n)"
  using round_float_mono [of 1 "real_of_int n"] assms by simp

lemma float_progress_all: "1 \<le> n \<Longrightarrow> float_progress n n = 1"
  using round_float_pos [of n] by (simp add: float_progress_def)

lemma float_progress_mono:
  assumes "0 \<le> k" "k \<le> k'" "1 \<le> n"
  shows "float_progress k n \<le> float_progress k' n"
proof -
  have "round_float (real_of_int k) \<le> round_float (real_of_int k')"
    using assms by (intro round_float_mono) simp_all
  moreover have "0 \<le> round_float (real_of_int k)"
    using round_float_mono [of 0 "real_of_int k"] assms by simp
  moreover note round_float_pos [OF assms(3)]
  ultimately have "0 \<le> round_float (real_of_int k) / round_float (real_of_int n)"
    "round_float (real_of_int k) / round_float (real_of_int n)
     \<le> round_float (real_of_int k') / round_float (real_of_int n)"
    by (simp_all add: divide_right_mono)
  then show ?thesis
    unfolding float_progress_def by (rule round_float_mono)
qed

lemma float_progress_nonneg:
  assumes "0 \<le> k" "1 \<le> n"
  shows "0 \<le> float_progress k n"
proof -
  have "float_progress 0 n \<le> float_progress k n" using assms by (intro float_progress_mono) simp_all
  then show ?thesis by (simp add: float_progress_def)
qed

lemma float_progress_below_one:
  assumes "0 \<le> k" "k < n" "n \<le> 16777216"
  shows "float_progress k n < 1"
proof -
  have k: "round_float (real_of_int k) = real_of_int k"
    and n: "round_float (real_of_int n) = real_of_int n"
    using assms by (simp_all add: round_float_int)
  have pos: "0 < real_of_int n" using assms by simp
  have "real_of_int k \<le> real_of_int n - 1" using assms by simp
  then have "real_of_int k / real_of_int n \<le> (real_of_int n - 1) / real_of_int n"
    using pos by (intro divide_right_mono) simp_all
  also have "\<dots> = 1 - 1 / real_of_int n" using pos by (simp add: field_simps)
  also have "\<dots> \<le> 1 - 1 / 16777216"
  proof -
    have "real_of_int n \<le> 16777216" using assms by simp
    then have "1 / 16777216 \<le> 1 / real_of_int n" using pos by (intro divide_left_mono) simp_all
    then show ?thesis by simp
  qed
  finally have "real_of_int k / real_of_int n \<le> 16777215 / 16777216" by simp
  moreover have "0 \<le> real_of_int k / real_of_int n" using assms pos by simp
  ultimately show ?thesis
    unfolding float_progress_def k n by (intro round_float_below_one)
qed

lemma float_progress_early: "float_progress 16781311 16781312 = 1"
proof -
  have a: "round_float 16781311 = 16781312"
    unfolding round_float_def
    by (subst round_to_eval [where e = 24]) (simp_all add: rne_def)
  have b: "round_float 16781312 = 16781312"
    unfolding round_float_def
    by (subst round_to_eval [where e = 24]) (simp_all add: rne_def)
  show ?thesis
    using a b by (simp add: float_progress_def)
qed


lemma round_double_nonneg: "0 \<le> x \<Longrightarrow> 0 \<le> round_double x"
  unfolding round_double_def by (rule round_to_nonneg)

lemma round_double_numeral:
  "numeral n \<le> (9007199254740992::int) \<Longrightarrow> round_double (numeral n) = numeral n"
  using round_double_int [of "numeral n"] by simp

lemma round_double_1 [simp]: "round_double 1 = 1"
  using round_double_int [of 1] by simp

lemma round_float_numeral:
  "numeral n \<le> (16777216::int) \<Longrightarrow> round_float (numeral n) = numeral n"
  using round_float_int [of "numeral n"] by simp

lemma round_float_half: "round_float (1/2) = 1/2"
proof -
  have b: "binade (1/2) = - 1" by (rule binade_eqI) simp_all
  show ?thesis
    unfolding round_float_def
    by (rule round_to_exact [where m = 1 and k = "- 1"]) (simp_all add: b)
qed

lemma round_double_eval:
  assumes "2 powi e \<le> \<bar>x\<bar>" "\<bar>x\<bar> < 2 powi (e + 1)" "- 1022 \<le> e"
  shows "round_double x = real_of_int (rne (x / 2 powi (e - 52))) * 2 powi (e - 52)"
  using assms(3) by (simp add: round_double_def round_to_eval [OF assms(1,2)] max_def)

lemma round_double_999: "round_double (999 / 1000) = 8998192055486251 / 9007199254740992"
  by (subst round_double_eval [where e = "- 1"]) (simp_all add: rne_def)

lemma round_double_20_11: "round_double (20 / 11) = 8188362958855447 / 4503599627370496"
  by (subst round_double_eval [where e = 0]) (simp_all add: rne_def)

lemma round_double_height_11: "round_double (90071992547409920 / 8188362958855447) = 11"
  by (subst round_double_eval [where e = 3]) (simp_all add: rne_def)

lemma round_double_5_3: "round_double (5 / 3) = 7505999378950827 / 4503599627370496"
  by (subst round_double_eval [where e = 0]) (simp_all add: rne_def)

lemma round_double_height_3: "round_double (22517998136852480 / 7505999378950827) = 3"
  by (subst round_double_eval [where e = 1]) (simp_all add: rne_def)








section \<open>Properties of \<open>ray_color\<close>\<close>

lemma demo_hit: "hit demo_env (Some m) demo_ray \<lparr> imin = 0.001, imax = Infinity \<rparr> = Some (demo_rec m)"
  by (simp add: demo_env_def demo_ray_def demo_rec_def)

lemma unit_demo: "unit_vector (Vec3 0 1 0) = Vec3 0 1 0"
  by (simp add: unit_vector_def length_vec_def dot_def vdiv_def smul_def)

lemma ray_color_exhausted:
  "depth \<le> 0 \<Longrightarrow> ray_color e cam world r depth g = (Vec3 0 0 0, g, 1)"
  by (subst ray_color.simps) simp

lemma ray_color_calls:
  "snd (snd (ray_color e cam world r depth g)) \<le> Suc (nat depth)"
proof (induction e cam world r depth g rule: ray_color.induct)
  case (1 e cam world r depth g)
  show ?case
  proof (cases "depth \<le> 0")
    case True
    then show ?thesis by (simp add: ray_color_exhausted)
  next
    case False
    then have step: "Suc (nat (depth - 1)) = nat depth" by simp
    show ?thesis
    proof (cases "hit e world r \<lparr> imin = 0.001, imax = Infinity \<rparr>")
      case None
      with False show ?thesis by (subst ray_color.simps) simp
    next
      case (Some rec)
      show ?thesis
      proof (cases "enable_shadows cam")
        case shadows: False
        with False Some show ?thesis by (subst ray_color.simps) simp
      next
        case shadows: True
        obtain res g1 where sc: "scatter e (mat rec) r rec g = (res, g1)"
          by (cases "scatter e (mat rec) r rec g")
        show ?thesis
        proof (cases res)
          case None
          with False Some shadows sc show ?thesis by (subst ray_color.simps) simp
        next
          case (Some as)
          obtain attenuation scattered where as: "as = (attenuation, scattered)"
            by (cases as)
          show ?thesis
          proof (cases "enable_reflections cam \<or> enable_refractions cam")
            case rec_off: False
            with False \<open>hit e world r _ = Some rec\<close> shadows sc Some as show ?thesis
              by (subst ray_color.simps) simp
          next
            case rec_on: True
            obtain c g2 n where rc: "ray_color e cam world scattered (depth - 1) g1 = (c, g2, n)"
              by (cases "ray_color e cam world scattered (depth - 1) g1")
            have "snd (snd (ray_color e cam world scattered (depth - 1) g1)) \<le> Suc (nat (depth - 1))"
              using "1.IH" [OF False \<open>hit e world r _ = Some rec\<close> shadows sc [symmetric] _ _ rec_on]
                Some as by simp
            with False \<open>hit e world r _ = Some rec\<close> shadows sc Some as rec_on step rc show ?thesis
              by (subst ray_color.simps) simp
          qed
        qed
      qed
    qed
  qed
qed

text \<open>
  C8. \<open>ray_color\<close> is a total function (its termination is proved with the measure
  \<open>depth\<close>, which the one recursive call decreases by 1); a call with \<open>depth \<le> 0\<close> returns
  black without drawing a random number and without calling itself; and a call makes at
  most \<open>depth + 1\<close> invocations in all, so the recursion is no deeper than the initial depth.
\<close>

theorem ray_color_terminates:
  "(depth \<le> 0 \<longrightarrow> ray_color e cam world r depth g = (Vec3 0 0 0, g, 1))
   \<and> snd (snd (ray_color e cam world r depth g)) \<le> Suc (nat depth)"
  using ray_color_exhausted [of depth e cam world r g] ray_color_calls [of e cam world r depth g]
  by simp

theorem ray_color_terminates_witness:
  "(0::int) \<le> 0
   \<and> ray_color demo_env default_camera (Some True) demo_ray 0 7 = (Vec3 0 0 0, 7, 1)
   \<and> snd (snd (ray_color demo_env default_camera (Some True) demo_ray 3 0)) \<le> Suc (nat 3)"
  using ray_color_terminates [of 0 demo_env default_camera "Some True" demo_ray 7]
    ray_color_terminates [of 3 demo_env default_camera "Some True" demo_ray 0]
  by simp

text \<open>
  C1. A ray that hits the scene, with \<open>depth > 0\<close>. With shadows disabled the colour is
  black. With shadows enabled the material's \<open>scatter\<close> is asked: when it rejects, the
  colour is black; when it returns an attenuation and a scattered ray and reflections or
  refractions are enabled, the colour is the attenuation times the colour of the scattered
  ray at \<open>depth - 1\<close> (resolved from the generator state that \<open>scatter\<close> left); when
  both are disabled, the colour is the attenuation times
  \<open>0.3 + 0.7 * max 0 (dot normal (unit_vector (1, 1, 1)))\<close>, and this call invoked \<open>ray_color\<close>
  once, that is, it made no recursive call.
\<close>

theorem ray_color_on_hit:
  assumes "0 < depth"
    and "hit e world r \<lparr> imin = 0.001, imax = Infinity \<rparr> = Some rec"
  shows "(\<not> enable_shadows cam \<longrightarrow> fst (ray_color e cam world r depth g) = Vec3 0 0 0)
    \<and> (enable_shadows cam \<and> fst (scatter e (mat rec) r rec g) = None
         \<longrightarrow> fst (ray_color e cam world r depth g) = Vec3 0 0 0)
    \<and> (enable_shadows cam \<and> scatter e (mat rec) r rec g = (Some (attenuation, scattered), g1)
         \<and> (enable_reflections cam \<or> enable_refractions cam)
         \<longrightarrow> fst (ray_color e cam world r depth g)
             = attenuation * fst (ray_color e cam world scattered (depth - 1) g1))
    \<and> (enable_shadows cam \<and> scatter e (mat rec) r rec g = (Some (attenuation, scattered), g1)
         \<and> \<not> enable_reflections cam \<and> \<not> enable_refractions cam
         \<longrightarrow> ray_color e cam world r depth g
             = (smul (0.3 + 0.7 * max 0 (dot (normal rec) (unit_vector (Vec3 1 1 1)))) attenuation,
                g1, 1))"
proof -
  have d: "\<not> depth \<le> 0" using assms(1) by simp
  have off: "fst (ray_color e cam world r depth g) = Vec3 0 0 0" if "\<not> enable_shadows cam"
    using that d assms(2) by (subst ray_color.simps) simp
  have rej: "fst (ray_color e cam world r depth g) = Vec3 0 0 0"
    if "enable_shadows cam" "fst (scatter e (mat rec) r rec g) = None"
    using that d assms(2)
    by (cases "scatter e (mat rec) r rec g") (subst ray_color.simps, simp)
  have recur: "fst (ray_color e cam world r depth g)
             = attenuation * fst (ray_color e cam world scattered (depth - 1) g1)"
    if "enable_shadows cam" "scatter e (mat rec) r rec g = (Some (attenuation, scattered), g1)"
       "enable_reflections cam \<or> enable_refractions cam"
    using that d assms(2) by (subst ray_color.simps) (auto split: prod.splits)
  have loc: "ray_color e cam world r depth g
             = (smul (0.3 + 0.7 * max 0 (dot (normal rec) (unit_vector (Vec3 1 1 1)))) attenuation,
                g1, 1)"
    if "enable_shadows cam" "scatter e (mat rec) r rec g = (Some (attenuation, scattered), g1)"
       "\<not> enable_reflections cam" "\<not> enable_refractions cam"
    using that d assms(2) by (subst ray_color.simps) simp
  from off rej recur loc show ?thesis by blast
qed

theorem ray_color_on_hit_witness:
  "(0::int) < 2
   \<and> hit demo_env (Some True) demo_ray \<lparr> imin = 0.001, imax = Infinity \<rparr> = Some (demo_rec True)
   \<and> fst (ray_color demo_env (default_camera \<lparr> enable_shadows := False \<rparr>) (Some True) demo_ray 2 0)
       = Vec3 0 0 0
   \<and> fst (ray_color demo_env default_camera (Some False) demo_ray 2 0) = Vec3 0 0 0
   \<and> fst (ray_color demo_env default_camera (Some True) demo_ray 2 0)
       = Vec3 (1/2) (1/2) (1/2) * fst (ray_color demo_env default_camera (Some True) demo_ray 1 1)
   \<and> ray_color demo_env
         (default_camera \<lparr> enable_reflections := False, enable_refractions := False \<rparr>)
         (Some True) demo_ray 2 0
       = (smul (0.3 + 0.7 * max 0 (dot (Vec3 0 1 0) (unit_vector (Vec3 1 1 1))))
            (Vec3 (1/2) (1/2) (1/2)), 1, 1)"
proof -
  have sc: "scatter demo_env m demo_ray (demo_rec m) 0
            = (if m then Some (Vec3 (1/2) (1/2) (1/2), demo_ray) else None, 1)" for m
    by (simp add: demo_env_def)
  have n: "normal (demo_rec True) = Vec3 0 1 0" "mat (demo_rec m) = m" for m
    by (simp_all add: demo_rec_def)
  have pos: "(0::int) < 2" by simp
  note on_hit = ray_color_on_hit [OF pos demo_hit]
  have 1: "fst (ray_color demo_env (default_camera \<lparr> enable_shadows := False \<rparr>) (Some True) demo_ray 2 0)
       = Vec3 0 0 0"
    using on_hit [where m1 = True and g = 0 and cam = "default_camera \<lparr> enable_shadows := False \<rparr>"]
    by simp
  have 2: "fst (ray_color demo_env default_camera (Some False) demo_ray 2 0) = Vec3 0 0 0"
    using on_hit [where m1 = False and g = 0 and cam = default_camera]
    by (simp add: sc n default_camera_def)
  have 3: "fst (ray_color demo_env default_camera (Some True) demo_ray 2 0)
       = Vec3 (1/2) (1/2) (1/2) * fst (ray_color demo_env default_camera (Some True) demo_ray 1 1)"
    using on_hit [where m1 = True and g = 0 and cam = default_camera
        and attenuation = "Vec3 (1/2) (1/2) (1/2)" and scattered = demo_ray and ?g1.0 = 1]
    by (simp add: sc n default_camera_def)
  have 4: "ray_color demo_env
         (default_camera \<lparr> enable_reflections := False, enable_refractions := False \<rparr>)
         (Some True) demo_ray 2 0
       = (smul (0.3 + 0.7 * max 0 (dot (Vec3 0 1 0) (unit_vector (Vec3 1 1 1))))
            (Vec3 (1/2) (1/2) (1/2)), 1, 1)"
    using on_hit [where m1 = True and g = 0
        and cam = "default_camera \<lparr> enable_reflections := False, enable_refractions := False \<rparr>"
        and attenuation = "Vec3 (1/2) (1/2) (1/2)" and scattered = demo_ray and ?g1.0 = 1]
    by (simp add: sc n default_camera_def)
  from pos demo_hit 1 2 3 4 show ?thesis by blast
qed

text \<open>
  C5, as the code has it. A ray that hits nothing, with \<open>depth > 0\<close>, has the colour of the
  background gradient \<open>(1 - a) * (1, 1, 1) + a * (0.5, 0.7, 1)\<close> with \<open>a = 0.5 * (y + 1)\<close> for
  the \<open>y\<close> component of the normalized direction. The gradient runs from the nadir to the
  zenith: it is white for a ray that points straight down (\<open>y = -1\<close>), \<open>(0.75, 0.85, 1)\<close> at
  the horizon (\<open>y = 0\<close>), and the light blue \<open>(0.5, 0.7, 1)\<close> for a ray that points straight
  up (\<open>y = 1\<close>).
\<close>

theorem ray_color_miss:
  assumes "0 < depth"
    and "hit e world r \<lparr> imin = 0.001, imax = Infinity \<rparr> = None"
  shows "fst (ray_color e cam world r depth g)
         = (let a = 0.5 * (vy (unit_vector (direction r)) + 1.0)
            in smul (1 - a) (Vec3 1.0 1.0 1.0) + smul a (Vec3 0.5 0.7 1.0))
    \<and> (vy (unit_vector (direction r)) = - 1
         \<longrightarrow> fst (ray_color e cam world r depth g) = Vec3 1 1 1)
    \<and> (vy (unit_vector (direction r)) = 0
         \<longrightarrow> fst (ray_color e cam world r depth g) = Vec3 0.75 0.85 1)
    \<and> (vy (unit_vector (direction r)) = 1
         \<longrightarrow> fst (ray_color e cam world r depth g) = Vec3 0.5 0.7 1)"
proof -
  have col: "fst (ray_color e cam world r depth g)
         = (let a = 0.5 * (vy (unit_vector (direction r)) + 1.0)
            in smul (1 - a) (Vec3 1.0 1.0 1.0) + smul a (Vec3 0.5 0.7 1.0))"
    using assms by (subst ray_color.simps) (simp add: background_def Let_def)
  then show ?thesis by (simp add: Let_def smul_def plus_vec3_def)
qed

theorem ray_color_miss_witness:
  "(0::int) < 5
   \<and> hit demo_env None demo_ray \<lparr> imin = 0.001, imax = Infinity \<rparr> = None
   \<and> vy (unit_vector (direction demo_ray)) = 1
   \<and> fst (ray_color demo_env default_camera None demo_ray 5 0) = Vec3 0.5 0.7 1.0
   \<and> vy (unit_vector (direction \<lparr> origin = Vec3 0 0 0, direction = Vec3 0 0 (- 1) \<rparr>)) = 0
   \<and> fst (ray_color demo_env default_camera None
             \<lparr> origin = Vec3 0 0 0, direction = Vec3 0 0 (- 1) \<rparr> 5 0) = Vec3 0.75 0.85 1
   \<and> vy (unit_vector (direction \<lparr> origin = Vec3 0 0 0, direction = Vec3 0 (- 1) 0 \<rparr>)) = - 1
   \<and> fst (ray_color demo_env default_camera None
             \<lparr> origin = Vec3 0 0 0, direction = Vec3 0 (- 1) 0 \<rparr> 5 0) = Vec3 1 1 1"
proof -
  have miss: "hit demo_env None r \<lparr> imin = 0.001, imax = Infinity \<rparr> = None" for r
    by (simp add: demo_env_def)
  have pos: "(0::int) < 5" by simp
  note gradient = ray_color_miss [OF pos miss, where cam = default_camera and g = 0]
  have up: "vy (unit_vector (direction demo_ray)) = 1"
    by (simp add: demo_ray_def unit_demo)
  have level: "vy (unit_vector (direction \<lparr> origin = Vec3 0 0 0, direction = Vec3 0 0 (- 1) \<rparr>)) = 0"
    by (simp add: unit_vector_def vdiv_def length_vec_def dot_def smul_def)
  have down: "vy (unit_vector (direction \<lparr> origin = Vec3 0 0 0, direction = Vec3 0 (- 1) 0 \<rparr>)) = - 1"
    by (simp add: unit_vector_def vdiv_def length_vec_def dot_def smul_def)
  from pos miss up level down gradient [where r = demo_ray]
    gradient [where r = "\<lparr> origin = Vec3 0 0 0, direction = Vec3 0 0 (- 1) \<rparr>"]
    gradient [where r = "\<lparr> origin = Vec3 0 0 0, direction = Vec3 0 (- 1) 0 \<rparr>"]
  show ?thesis by (simp add: Let_def smul_def plus_vec3_def)
qed

text \<open>
  C5 as stated fails. The gradient is not white at the horizon: a level ray that hits
  nothing has the colour \<open>(0.75, 0.85, 1)\<close>.
\<close>

theorem horizon_not_white_counterexample:
  "hit demo_env None \<lparr> origin = Vec3 0 0 0, direction = Vec3 0 0 (- 1) \<rparr>
     \<lparr> imin = 0.001, imax = Infinity \<rparr> = None
   \<and> unit_vector (Vec3 0 0 (- 1)) = Vec3 0 0 (- 1)
   \<and> fst (ray_color demo_env default_camera None
             \<lparr> origin = Vec3 0 0 0, direction = Vec3 0 0 (- 1) \<rparr> 5 0) = Vec3 0.75 0.85 1
   \<and> fst (ray_color demo_env default_camera None
             \<lparr> origin = Vec3 0 0 0, direction = Vec3 0 0 (- 1) \<rparr> 5 0) \<noteq> Vec3 1 1 1"
  by (simp add: ray_color.simps demo_env_def background_def unit_vector_def vdiv_def
      length_vec_def dot_def smul_def plus_vec3_def)

section \<open>Proof rules for the loops\<close>

text \<open>
  One rule per loop, in the manner of a Hoare logic: predicates at the head of the loop and
  at its exits, and one premise for every edge of the control flow. \<open>P\<close> holds at the
  condition of the sample loop (with the sample number and the colour accumulated so far),
  \<open>S\<close> after it, \<open>R\<close> at the condition of the pixel loop, \<open>E\<close> after it, \<open>I\<close> at the
  condition of the row loop and \<open>F\<close> after it.
\<close>

lemma sample_loop_rule:
  assumes step: "\<And>k pc s pc' s'. P k pc s \<Longrightarrow> k < sample_count (ctx_cam c) \<Longrightarrow> \<not> should_stop c (polls s)
            \<Longrightarrow> take_sample c i j k pc (polled c (Sample_start i j k) s) = (pc', s')
            \<Longrightarrow> P (k + 1) pc' s'"
    and stop: "\<And>k pc s. P k pc s \<Longrightarrow> k < sample_count (ctx_cam c) \<Longrightarrow> should_stop c (polls s)
            \<Longrightarrow> S pc (polled c (Sample_start i j k) s)"
    and exit: "\<And>k pc s. P k pc s \<Longrightarrow> \<not> k < sample_count (ctx_cam c) \<Longrightarrow> S pc s"
    and start: "P k pc s"
  shows "S (fst (sample_loop c i j k pc s)) (snd (sample_loop c i j k pc s))"
  using assms
proof (induction c i j k pc s rule: sample_loop.induct)
  case (1 c i j sample pixel_color s)
  show ?case
  proof (cases "sample < sample_count (ctx_cam c)")
    case False
    with "1.prems"(3,4) show ?thesis by (subst (1 2) sample_loop.simps) simp
  next
    case more: True
    show ?thesis
    proof (cases "should_stop c (polls s)")
      case True
      with more "1.prems"(2,4) show ?thesis by (subst (1 2) sample_loop.simps) simp
    next
      case False
      obtain pc' s' where ts: "take_sample c i j sample pixel_color (polled c (Sample_start i j sample) s) = (pc', s')"
        by (cases "take_sample c i j sample pixel_color (polled c (Sample_start i j sample) s)")
      have P': "P (sample + 1) pc' s'"
        using "1.prems"(1) [OF "1.prems"(4) more False ts] .
      have "S (fst (sample_loop c i j (sample + 1) pc' s')) (snd (sample_loop c i j (sample + 1) pc' s'))"
        using "1.IH" [OF more False ts [symmetric]] "1.prems"(1,2,3) P' by blast
      with more False ts show ?thesis by (subst (1 2) sample_loop.simps) simp
    qed
  qed
qed

lemma pixel_loop_rule:
  assumes enter: "\<And>i s. R i s \<Longrightarrow> i < image_width (ctx_cam c) \<Longrightarrow> \<not> should_stop c (polls s)
            \<Longrightarrow> P i 0 (Vec3 0 0 0) (polled c (Pixel_start i j) s)"
    and leave: "\<And>i s. R i s \<Longrightarrow> i < image_width (ctx_cam c) \<Longrightarrow> should_stop c (polls s)
            \<Longrightarrow> E (polled c (Pixel_start i j) s)"
    and over: "\<And>i s. R i s \<Longrightarrow> \<not> i < image_width (ctx_cam c) \<Longrightarrow> E s"
    and step: "\<And>i k pc s pc' s'. P i k pc s \<Longrightarrow> k < sample_count (ctx_cam c)
            \<Longrightarrow> \<not> should_stop c (polls s)
            \<Longrightarrow> take_sample c i j k pc (polled c (Sample_start i j k) s) = (pc', s')
            \<Longrightarrow> P i (k + 1) pc' s'"
    and halt: "\<And>i k pc s. P i k pc s \<Longrightarrow> k < sample_count (ctx_cam c) \<Longrightarrow> should_stop c (polls s)
            \<Longrightarrow> S i pc (polled c (Sample_start i j k) s)"
    and sampled: "\<And>i k pc s. P i k pc s \<Longrightarrow> \<not> k < sample_count (ctx_cam c) \<Longrightarrow> S i pc s"
    and brk: "\<And>i pc s. S i pc s \<Longrightarrow> should_stop c (polls s)
            \<Longrightarrow> E (polled c (Samples_done i j) s)"
    and advance: "\<And>i pc s. S i pc s \<Longrightarrow> \<not> should_stop c (polls s)
            \<Longrightarrow> R (i + 1) (finish_pixel c i j pc (polled c (Samples_done i j) s))"
    and start: "R i s"
  shows "E (pixel_loop c j i s)"
  using assms
proof (induction c j i s rule: pixel_loop.induct)
  case (1 c j i s)
  note enter = "1.prems"(1) and leave = "1.prems"(2) and over = "1.prems"(3)
    and step = "1.prems"(4) and halt = "1.prems"(5) and sampled = "1.prems"(6)
    and brk = "1.prems"(7) and advance = "1.prems"(8) and start = "1.prems"(9)
  show ?case
  proof (cases "i < image_width (ctx_cam c)")
    case False
    with over [OF start] show ?thesis by (subst pixel_loop.simps) simp
  next
    case more: True
    show ?thesis
    proof (cases "should_stop c (polls s)")
      case True
      with more leave [OF start] show ?thesis by (subst pixel_loop.simps) simp
    next
      case go: False
      obtain pc s1 where sl: "sample_loop c i j 0 (Vec3 0 0 0) (polled c (Pixel_start i j) s) = (pc, s1)"
        by (cases "sample_loop c i j 0 (Vec3 0 0 0) (polled c (Pixel_start i j) s)")
      have "S i (fst (sample_loop c i j 0 (Vec3 0 0 0) (polled c (Pixel_start i j) s)))
                (snd (sample_loop c i j 0 (Vec3 0 0 0) (polled c (Pixel_start i j) s)))"
        by (rule sample_loop_rule [where P = "P i" and S = "S i"])
           (blast intro: step halt sampled enter [OF start more go])+
      then have S: "S i pc s1" by (simp add: sl)
      show ?thesis
      proof (cases "should_stop c (polls s1)")
        case True
        with more go sl brk [OF S] show ?thesis by (subst pixel_loop.simps) simp
      next
        case False
        have "R (i + 1) (finish_pixel c i j pc (polled c (Samples_done i j) s1))"
          using advance [OF S False] .
        then have "E (pixel_loop c j (i + 1) (finish_pixel c i j pc (polled c (Samples_done i j) s1)))"
          using "1.IH" [OF more go sl [symmetric] False] enter leave over step halt sampled brk advance
          by blast
        with more go sl False show ?thesis by (subst pixel_loop.simps) simp
      qed
    qed
  qed
qed

lemma row_loop_rule:
  assumes row: "\<And>j s. I j s \<Longrightarrow> j < image_height (ctx_vp c) \<Longrightarrow> \<not> should_stop c (polls s)
            \<Longrightarrow> R j 0 (polled c (Row_start j) s)"
    and cancel: "\<And>j s. I j s \<Longrightarrow> j < image_height (ctx_vp c) \<Longrightarrow> should_stop c (polls s)
            \<Longrightarrow> F (polled c (Row_start j) s)"
    and finished: "\<And>j s. I j s \<Longrightarrow> \<not> j < image_height (ctx_vp c) \<Longrightarrow> F s"
    and enter: "\<And>j i s. R j i s \<Longrightarrow> i < image_width (ctx_cam c) \<Longrightarrow> \<not> should_stop c (polls s)
            \<Longrightarrow> P j i 0 (Vec3 0 0 0) (polled c (Pixel_start i j) s)"
    and leave: "\<And>j i s. R j i s \<Longrightarrow> i < image_width (ctx_cam c) \<Longrightarrow> should_stop c (polls s)
            \<Longrightarrow> E j (polled c (Pixel_start i j) s)"
    and over: "\<And>j i s. R j i s \<Longrightarrow> \<not> i < image_width (ctx_cam c) \<Longrightarrow> E j s"
    and step: "\<And>j i k pc s pc' s'. P j i k pc s \<Longrightarrow> k < sample_count (ctx_cam c)
            \<Longrightarrow> \<not> should_stop c (polls s)
            \<Longrightarrow> take_sample c i j k pc (polled c (Sample_start i j k) s) = (pc', s')
            \<Longrightarrow> P j i (k + 1) pc' s'"
    and halt: "\<And>j i k pc s. P j i k pc s \<Longrightarrow> k < sample_count (ctx_cam c)
            \<Longrightarrow> should_stop c (polls s)
            \<Longrightarrow> S j i pc (polled c (Sample_start i j k) s)"
    and sampled: "\<And>j i k pc s. P j i k pc s \<Longrightarrow> \<not> k < sample_count (ctx_cam c) \<Longrightarrow> S j i pc s"
    and brk: "\<And>j i pc s. S j i pc s \<Longrightarrow> should_stop c (polls s)
            \<Longrightarrow> E j (polled c (Samples_done i j) s)"
    and advance: "\<And>j i pc s. S j i pc s \<Longrightarrow> \<not> should_stop c (polls s)
            \<Longrightarrow> R j (i + 1) (finish_pixel c i j pc (polled c (Samples_done i j) s))"
    and ended: "\<And>j s. E j s \<Longrightarrow> I (j + 1) (row_end c j s)"
    and start: "I j s"
  shows "F (row_loop c j s)"
  using assms
proof (induction c j s rule: row_loop.induct)
  case (1 c j s)
  note row = "1.prems"(1) and cancel = "1.prems"(2) and finished = "1.prems"(3)
    and enter = "1.prems"(4) and leave = "1.prems"(5) and over = "1.prems"(6)
    and step = "1.prems"(7) and halt = "1.prems"(8) and sampled = "1.prems"(9)
    and brk = "1.prems"(10) and advance = "1.prems"(11) and ended = "1.prems"(12)
    and start = "1.prems"(13)
  show ?case
  proof (cases "j < image_height (ctx_vp c)")
    case False
    with finished [OF start] show ?thesis by (subst row_loop.simps) simp
  next
    case more: True
    show ?thesis
    proof (cases "should_stop c (polls s)")
      case True
      with more cancel [OF start] show ?thesis by (subst row_loop.simps) simp
    next
      case go: False
      have "E j (pixel_loop c j 0 (polled c (Row_start j) s))"
        by (rule pixel_loop_rule [where R = "R j" and P = "P j" and S = "S j" and E = "E j"])
           (blast intro: enter leave over step halt sampled brk advance row [OF start more go])+
      then have "I (j + 1) (row_end c j (pixel_loop c j 0 (polled c (Row_start j) s)))"
        by (rule ended)
      then have "F (row_loop c (j + 1) (row_end c j (pixel_loop c j 0 (polled c (Row_start j) s))))"
        using "1.IH" [OF more go] row cancel finished enter leave over step halt sampled brk
          advance ended
        by blast
      with more go show ?thesis by (subst row_loop.simps) simp
    qed
  qed
qed

section \<open>The steps of the loop\<close>

lemma row_loop_invariant:
  assumes poll: "\<And>site s. Inv s \<Longrightarrow> Inv (polled c site s)"
    and sample: "\<And>i j k pc s. Inv s \<Longrightarrow> \<not> should_stop c (polls s)
            \<Longrightarrow> Inv (snd (take_sample c i j k pc (polled c (Sample_start i j k) s)))"
    and pixel: "\<And>i j pc s. Inv s \<Longrightarrow> \<not> should_stop c (polls s)
            \<Longrightarrow> Inv (finish_pixel c i j pc (polled c (Samples_done i j) s))"
    and rowend: "\<And>j s. Inv s \<Longrightarrow> Inv (row_end c j s)"
    and start: "Inv s"
  shows "Inv (row_loop c j s)"
proof (rule row_loop_rule [where I = "\<lambda>j. Inv" and R = "\<lambda>j i. Inv" and P = "\<lambda>j i k pc. Inv"
      and S = "\<lambda>j i pc. Inv" and E = "\<lambda>j. Inv" and F = Inv])
  fix j i k pc s pc' s'
  assume "Inv s" "\<not> should_stop c (polls s)"
    "take_sample c i j k pc (polled c (Sample_start i j k) s) = (pc', s')"
  then show "Inv s'" using sample [of s i j k pc] by simp
qed (simp_all add: poll pixel rowend start)

lemma trace_polled: "trace (polled c site s) = trace s @ [Poll site (should_stop c (polls s))]"
  by (simp add: polled_def emit_def)

lemma trace_take_sample: "trace (snd (take_sample c i j k pc s)) = trace s @ [Sample i j k]"
  by (simp add: take_sample_def emit_def split: prod.splits)

lemma trace_write_pixel:
  "trace (write_pixel c i j pc s)
   = trace s @ [case pixel_bytes (ctx_env c) (ctx_cam c) pc of (r, g, b) \<Rightarrow> Write i j r g b]"
  by (simp add: write_pixel_def emit_def Let_def split: prod.splits)

lemma trace_report_progress:
  "trace (report_progress c s)
   = trace s @ [Progress (float_progress (completed_pixels s + 1) (total_pixels c))]"
  by (simp add: report_progress_def emit_def Let_def)

lemma trace_notify_update:
  "trace (notify_update c s)
   = trace s @ Clock_read (steady_clock_now c (clock_reads s))
       # (if update_due c s then [Update_pixel (steady_clock_now c (clock_reads s))] else [])"
  by (simp add: notify_update_def update_due_def emit_def Let_def)

lemma trace_row_end:
  "trace (row_end c j s)
   = trace s @ (if j smod max 1 (image_height (ctx_vp c) sdiv 20) = 0 then [Update_row j] else [])"
  by (simp add: row_end_def emit_def)

lemma each_event_append:
  "each_event ok pre (evs @ evs') = (each_event ok pre evs \<and> each_event ok (pre @ evs) evs')"
  by (induction evs arbitrary: pre) auto





lemma fields_polled:
  "buffer (polled c site s) = buffer s"
  "progress (polled c site s) = progress s"
  "completed_pixels (polled c site s) = completed_pixels s"
  "pixels_since_update (polled c site s) = pixels_since_update s"
  "last_update_time (polled c site s) = last_update_time s"
  "rng (polled c site s) = rng s"
  "polls (polled c site s) = Suc (polls s)"
  "clock_reads (polled c site s) = clock_reads s"
  "texture_needs_update (polled c site s) = texture_needs_update s"
  by (simp_all add: polled_def emit_def)

lemma fields_take_sample:
  "buffer (snd (take_sample c i j k pc s)) = buffer s"
  "progress (snd (take_sample c i j k pc s)) = progress s"
  "completed_pixels (snd (take_sample c i j k pc s)) = completed_pixels s"
  "pixels_since_update (snd (take_sample c i j k pc s)) = pixels_since_update s"
  "last_update_time (snd (take_sample c i j k pc s)) = last_update_time s"
  "polls (snd (take_sample c i j k pc s)) = polls s"
  "clock_reads (snd (take_sample c i j k pc s)) = clock_reads s"
  "texture_needs_update (snd (take_sample c i j k pc s)) = texture_needs_update s"
  by (simp_all add: take_sample_def emit_def split: prod.splits)

lemma fields_write_pixel:
  "progress (write_pixel c i j pc s) = progress s"
  "completed_pixels (write_pixel c i j pc s) = completed_pixels s"
  "pixels_since_update (write_pixel c i j pc s) = pixels_since_update s"
  "last_update_time (write_pixel c i j pc s) = last_update_time s"
  "rng (write_pixel c i j pc s) = rng s"
  "polls (write_pixel c i j pc s) = polls s"
  "clock_reads (write_pixel c i j pc s) = clock_reads s"
  "texture_needs_update (write_pixel c i j pc s) = texture_needs_update s"
  by (simp_all add: write_pixel_def emit_def Let_def split: prod.splits)

lemma fields_report_progress:
  "buffer (report_progress c s) = buffer s"
  "progress (report_progress c s) = float_progress (completed_pixels s + 1) (total_pixels c)"
  "completed_pixels (report_progress c s) = completed_pixels s + 1"
  "pixels_since_update (report_progress c s) = pixels_since_update s + 1"
  "last_update_time (report_progress c s) = last_update_time s"
  "rng (report_progress c s) = rng s"
  "polls (report_progress c s) = polls s"
  "clock_reads (report_progress c s) = clock_reads s"
  "texture_needs_update (report_progress c s) = texture_needs_update s"
  by (simp_all add: report_progress_def emit_def Let_def)

lemma fields_notify_update:
  "buffer (notify_update c s) = buffer s"
  "progress (notify_update c s) = progress s"
  "completed_pixels (notify_update c s) = completed_pixels s"
  "pixels_since_update (notify_update c s) = (if update_due c s then 0 else pixels_since_update s)"
  "last_update_time (notify_update c s)
   = (if update_due c s then steady_clock_now c (clock_reads s) else last_update_time s)"
  "rng (notify_update c s) = rng s"
  "polls (notify_update c s) = polls s"
  "clock_reads (notify_update c s) = Suc (clock_reads s)"
  "texture_needs_update (notify_update c s) = (update_due c s \<or> texture_needs_update s)"
  by (simp_all add: notify_update_def update_due_def emit_def Let_def)

lemma fields_row_end:
  "buffer (row_end c j s) = buffer s"
  "progress (row_end c j s) = progress s"
  "completed_pixels (row_end c j s) = completed_pixels s"
  "pixels_since_update (row_end c j s) = pixels_since_update s"
  "last_update_time (row_end c j s) = last_update_time s"
  "rng (row_end c j s) = rng s"
  "polls (row_end c j s) = polls s"
  "clock_reads (row_end c j s) = clock_reads s"
  "texture_needs_update (row_end c j s)
   = (j smod max 1 (image_height (ctx_vp c) sdiv 20) = 0 \<or> texture_needs_update s)"
  by (simp_all add: row_end_def emit_def)

lemmas step_simps = trace_polled trace_take_sample trace_write_pixel trace_report_progress
  trace_notify_update trace_row_end fields_polled fields_take_sample fields_write_pixel
  fields_report_progress fields_notify_update fields_row_end







lemma length_expected_image: "length (expected_image e cam vp world g n) = 3 * n"
  by (induction n) (simp_all add: expected_image_def expected_pixel_def split: prod.splits)

lemma expected_image_Suc:
  "expected_image e cam vp world g (Suc n)
   = expected_image e cam vp world g n @ expected_pixel e cam vp world g n"
  by (simp add: expected_image_def)

lemma pixel_bytes_expected:
  "(case pixel_bytes e cam (foldl plus_assign (Vec3 0 0 0) (pixel_colors e cam vp world g k)) of
      (r, gr, b) \<Rightarrow> [r, gr, b]) = expected_pixel e cam vp world g k"
  by (simp add: expected_pixel_def)

lemma write_three:
  assumes "length xs = n"
  shows "(xs @ replicate (3 * Suc m) (0::byte))[n := r, n + 1 := g, n + 2 := b]
         = (xs @ [r, g, b]) @ replicate (3 * m) 0"
proof -
  have "3 * Suc m = Suc (Suc (Suc (3 * m)))" by simp
  then have "replicate (3 * Suc m) (0::byte) = 0 # 0 # 0 # replicate (3 * m) 0"
    by (simp only: replicate_Suc)
  with assms show ?thesis
    by (simp add: list_update_append numeral_2_eq_2)
qed

lemma stop_observed_append:
  "stop_observed (evs @ evs') = (stop_observed evs \<or> stop_observed evs')"
  by (induction evs rule: stop_observed.induct) auto

lemma rendered_polled:
  assumes "write_once (should_stop c)" "rendered c g0 s"
  shows "rendered c g0 (polled c site s)"
  using assms
  by (auto simp: rendered_def write_once_def fields_polled trace_polled stop_observed_append)

lemma not_observed:
  "rendered c g0 s \<Longrightarrow> \<not> should_stop c (polls s) \<Longrightarrow> \<not> stop_observed (trace s)"
  by (auto simp: rendered_def)

lemma pixel_below_total:
  assumes "0 \<le> j" "j < h" "0 \<le> i" "i < (w::int)"
  shows "j * w + i < w * h"
proof -
  have "j * w + i < j * w + w" using assms by simp
  also have "\<dots> = (j + 1) * w" by (simp add: algebra_simps)
  also have "\<dots> \<le> h * w" using assms by (intro mult_right_mono) auto
  finally show ?thesis by (simp add: mult.commute)
qed

lemma vc_row:
  assumes "write_once (should_stop c)" "0 \<le> image_width (ctx_cam c)"
    and "row_head c g0 j s" "j < image_height (ctx_vp c)" "\<not> should_stop c (polls s)"
  shows "pixel_head c g0 j 0 (polled c (Row_start j) s)"
proof -
  have r: "rendered c g0 s" using assms(3) by (simp add: row_head_def)
  have no: "\<not> stop_observed (trace s)" using not_observed [OF r assms(5)] .
  then have "at_pixel c g0 j 0 s" using assms(3) by (auto simp: row_head_def cut_short_def)
  then have "at_pixel c g0 j 0 (polled c (Row_start j) s)"
    by (simp add: at_pixel_def fields_polled)
  with rendered_polled [OF assms(1) r] no assms show ?thesis
    by (simp add: pixel_head_def row_head_def trace_polled stop_observed_append)
qed

lemma cut_short_below:
  assumes "completed_pixels s < total_pixels c \<or> total_pixels c = 0" "should_stop c (polls s)"
  shows "cut_short c (polled c site s)"
  using assms by (simp add: cut_short_def fields_polled trace_polled stop_observed_append)

lemma vc_cancel:
  assumes "write_once (should_stop c)" "0 \<le> image_width (ctx_cam c)"
    and "row_head c g0 j s" "j < image_height (ctx_vp c)" "should_stop c (polls s)"
  shows "loops_done c g0 (polled c (Row_start j) s)"
proof -
  have r: "rendered c g0 s" using assms(3) by (simp add: row_head_def)
  have "completed_pixels s < total_pixels c \<or> total_pixels c = 0"
  proof (cases "cut_short c s")
    case True
    then show ?thesis by (simp add: cut_short_def)
  next
    case False
    then have c: "completed_pixels s = j * image_width (ctx_cam c)" and "0 \<le> j"
      using assms(3) by (auto simp: row_head_def at_pixel_def)
    show ?thesis
    proof (cases "image_width (ctx_cam c) = 0")
      case True
      then show ?thesis by (simp add: total_pixels_def)
    next
      case False
      with assms(2) have "0 < image_width (ctx_cam c)" by simp
      with assms(4) have "j * image_width (ctx_cam c) < image_height (ctx_vp c) * image_width (ctx_cam c)"
        by (intro mult_strict_right_mono) auto
      with c show ?thesis by (simp add: total_pixels_def mult.commute)
    qed
  qed
  with rendered_polled [OF assms(1) r] assms(5) show ?thesis
    by (simp add: loops_done_def cut_short_below)
qed

lemma vc_finished:
  assumes "row_head c g0 j s" "\<not> j < image_height (ctx_vp c)"
  shows "loops_done c g0 s"
  using assms
  by (auto simp: row_head_def loops_done_def at_pixel_def total_pixels_def mult.commute)

lemma vc_enter:
  assumes "write_once (should_stop c)"
    and "pixel_head c g0 j i s" "i < image_width (ctx_cam c)" "\<not> should_stop c (polls s)"
  shows "sample_head c g0 j i 0 (Vec3 0 0 0) (polled c (Pixel_start i j) s)"
proof -
  have r: "rendered c g0 s" using assms(2) by (simp add: pixel_head_def)
  with rendered_polled [OF assms(1) r] assms show ?thesis
    by (simp add: sample_head_def pixel_head_def at_pixel_def samples_at_def fields_polled
        trace_polled stop_observed_append)
qed

lemma vc_leave:
  assumes "write_once (should_stop c)"
    and "pixel_head c g0 j i s" "i < image_width (ctx_cam c)" "should_stop c (polls s)"
  shows "row_tail c g0 j (polled c (Pixel_start i j) s)"
proof -
  have r: "rendered c g0 s" using assms(2) by (simp add: pixel_head_def)
  have "completed_pixels s < total_pixels c"
    using assms(2,3) pixel_below_total [of j "image_height (ctx_vp c)" i "image_width (ctx_cam c)"]
    by (simp add: pixel_head_def at_pixel_def total_pixels_def)
  with rendered_polled [OF assms(1) r] assms show ?thesis
    by (simp add: row_tail_def pixel_head_def cut_short_below)
qed

lemma vc_over:
  assumes "pixel_head c g0 j i s" "\<not> i < image_width (ctx_cam c)"
  shows "row_tail c g0 j s"
proof -
  have "i = image_width (ctx_cam c)" using assms by (simp add: pixel_head_def)
  moreover have "(j + 1) * image_width (ctx_cam c) = j * image_width (ctx_cam c) + image_width (ctx_cam c)"
    by (simp add: algebra_simps)
  ultimately show ?thesis using assms(1)
    by (simp add: row_tail_def pixel_head_def at_pixel_def)
qed

lemma vc_step:
  assumes "write_once (should_stop c)"
    and "sample_head c g0 j i k pc s" "k < sample_count (ctx_cam c)" "\<not> should_stop c (polls s)"
    and "take_sample c i j k pc (polled c (Sample_start i j k) s) = (pc', s')"
  shows "sample_head c g0 j i (k + 1) pc' s'"
proof -
  have r: "rendered c g0 s" and k: "0 \<le> k" using assms(2) by (simp_all add: sample_head_def)
  have nat: "nat (k + 1) = Suc (nat k)" using k by simp
  obtain col g1 where os: "one_sample (ctx_env c) (ctx_cam c) (ctx_vp c) (ctx_world c) i j (rng s) = (col, g1)"
    by (cases "one_sample (ctx_env c) (ctx_cam c) (ctx_vp c) (ctx_world c) i j (rng s)")
  have s': "s' = emit (Sample i j k) ((polled c (Sample_start i j k) s) \<lparr> rng := g1 \<rparr>)"
    and pc': "pc' = plus_assign pc col"
    using assms(5) os by (simp_all add: take_sample_def fields_polled)
  have rp: "rendered c g0 (polled c (Sample_start i j k) s)"
    by (rule rendered_polled [OF assms(1) r])
  have r': "rendered c g0 s'"
    using rp assms(4) not_observed [OF r assms(4)]
    by (simp add: s' rendered_def emit_def polled_def stop_observed_append)
  obtain cols g where sa: "samples_at c g0 j i (nat k) = (cols, g)"
    by (cases "samples_at c g0 j i (nat k)")
  with assms(2) have pc: "pc = foldl plus_assign (Vec3 0 0 0) cols" and g: "rng s = g"
    by (simp_all add: sample_head_def)
  have "samples_at c g0 j i (Suc (nat k)) = (cols @ [col], g1)"
    using sa os g by (simp add: samples_at_def)
  with assms(2,3,4) r' sa show ?thesis
    by (simp add: sample_head_def nat s' pc' emit_def polled_def stop_observed_append)
qed

lemma vc_halt:
  assumes "write_once (should_stop c)"
    and "sample_head c g0 j i k pc s" "should_stop c (polls s)"
  shows "samples_tail c g0 j i pc (polled c (Sample_start i j k) s)"
proof -
  have r: "rendered c g0 s" using assms(2) by (simp add: sample_head_def)
  with rendered_polled [OF assms(1) r] assms show ?thesis
    by (simp add: samples_tail_def sample_head_def fields_polled trace_polled stop_observed_append)
qed

lemma vc_sampled:
  assumes "sample_head c g0 j i k pc s" "\<not> k < sample_count (ctx_cam c)"
  shows "samples_tail c g0 j i pc s"
proof -
  have "nat k = nat (sample_count (ctx_cam c))"
    using assms by (auto simp: sample_head_def max_def split: if_splits)
  with assms(1) show ?thesis by (simp add: samples_tail_def sample_head_def)
qed

lemma vc_brk:
  assumes "write_once (should_stop c)"
    and "samples_tail c g0 j i pc s" "should_stop c (polls s)"
  shows "row_tail c g0 j (polled c (Samples_done i j) s)"
proof -
  have r: "rendered c g0 s" using assms(2) by (simp add: samples_tail_def)
  have "completed_pixels s < total_pixels c"
    using assms(2) pixel_below_total [of j "image_height (ctx_vp c)" i "image_width (ctx_cam c)"]
    by (simp add: samples_tail_def total_pixels_def)
  with rendered_polled [OF assms(1) r] assms show ?thesis
    by (simp add: row_tail_def samples_tail_def cut_short_below)
qed

lemma vc_ended:
  assumes "row_tail c g0 j s"
  shows "row_head c g0 (j + 1) (row_end c j s)"
  using assms
  by (auto simp: row_tail_def row_head_def rendered_def cut_short_def at_pixel_def fields_row_end
      trace_row_end stop_observed_append)

lemma fields_finish_pixel:
  "completed_pixels (finish_pixel c i j pc s) = completed_pixels s + 1"
  "progress (finish_pixel c i j pc s) = float_progress (completed_pixels s + 1) (total_pixels c)"
  "rng (finish_pixel c i j pc s) = rng s"
  "polls (finish_pixel c i j pc s) = polls s"
  "clock_reads (finish_pixel c i j pc s) = Suc (clock_reads s)"
  by (simp_all add: finish_pixel_def step_simps)

lemma buffer_finish_pixel:
  "buffer (finish_pixel c i j pc s)
   = (case pixel_bytes (ctx_env c) (ctx_cam c) pc of
        (r, g, b) \<Rightarrow>
          (buffer s)[nat ((j * image_width (ctx_cam c) + i) * 3) := r,
                     nat ((j * image_width (ctx_cam c) + i) * 3) + 1 := g,
                     nat ((j * image_width (ctx_cam c) + i) * 3) + 2 := b])"
  by (simp add: finish_pixel_def step_simps write_pixel_def emit_def Let_def split: prod.splits)

lemma stop_observed_finish_pixel:
  "stop_observed (trace (finish_pixel c i j pc s)) = stop_observed (trace s)"
  by (simp add: finish_pixel_def step_simps stop_observed_append split: prod.splits)

lemma vc_advance:
  assumes "write_once (should_stop c)"
    and "samples_tail c g0 j i pc s" "\<not> should_stop c (polls s)"
  shows "pixel_head c g0 j (i + 1) (finish_pixel c i j pc (polled c (Samples_done i j) s))"
proof -
  define w where "w = image_width (ctx_cam c)"
  define k where "k = nat (j * w + i)"
  define s1 where "s1 = polled c (Samples_done i j) s"
  have r: "rendered c g0 s" and j: "0 \<le> j" "j < image_height (ctx_vp c)"
    and i: "0 \<le> i" "i < w" and cp: "completed_pixels s = j * w + i"
    using assms(2) by (simp_all add: samples_tail_def w_def)
  have no: "\<not> stop_observed (trace s)" using not_observed [OF r assms(3)] .
  have jw: "0 \<le> j * w" using j i by simp
  have ik: "int k = j * w + i" using jw i by (simp add: k_def)
  have coords: "int k mod w = i" "int k div w = j" using i by (simp_all add: ik)
  have pc: "pc = foldl plus_assign (Vec3 0 0 0) (pixel_colors (ctx_env c) (ctx_cam c) (ctx_vp c) (ctx_world c) g0 k)"
    and g: "rng s = rng_at c g0 (Suc k)"
    using assms(2) no coords
    by (simp_all add: samples_tail_def pixel_colors_def samples_at_def rng_at_def w_def [symmetric]
        k_def [symmetric])
  have below: "j * w + i < total_pixels c"
    using pixel_below_total [OF j i] by (simp add: total_pixels_def w_def)
  then have rest: "nat (total_pixels c - (j * w + i)) = Suc (nat (total_pixels c - (j * w + i + 1)))"
    by simp
  have idx: "nat ((j * w + i) * 3) = 3 * k" using ik by (simp add: k_def)
  have buf: "buffer s1 = expected_image (ctx_env c) (ctx_cam c) (ctx_vp c) (ctx_world c) g0 k
                @ replicate (3 * Suc (nat (total_pixels c - (j * w + i + 1)))) 0"
    using r cp rest by (simp add: rendered_def s1_def fields_polled k_def)
  obtain rb gb bb where pb: "pixel_bytes (ctx_env c) (ctx_cam c) pc = (rb, gb, bb)"
    by (cases "pixel_bytes (ctx_env c) (ctx_cam c) pc")
  have three: "[rb, gb, bb] = expected_pixel (ctx_env c) (ctx_cam c) (ctx_vp c) (ctx_world c) g0 k"
    using pixel_bytes_expected [of "ctx_env c" "ctx_cam c" "ctx_vp c" "ctx_world c" g0 k] pb pc
    by simp
  have "buffer (finish_pixel c i j pc s1) = (buffer s1)[3 * k := rb, 3 * k + 1 := gb, 3 * k + 2 := bb]"
    unfolding buffer_finish_pixel w_def [symmetric] idx pb by simp
  also have "\<dots> = (expected_image (ctx_env c) (ctx_cam c) (ctx_vp c) (ctx_world c) g0 k @ [rb, gb, bb])
                @ replicate (3 * nat (total_pixels c - (j * w + i + 1))) 0"
    unfolding buf by (rule write_three [OF length_expected_image])
  finally have buf': "buffer (finish_pixel c i j pc s1)
              = expected_image (ctx_env c) (ctx_cam c) (ctx_vp c) (ctx_world c) g0 (Suc k)
                @ replicate (3 * nat (total_pixels c - (j * w + i + 1))) 0"
    by (simp add: expected_image_Suc three)
  have nat': "nat (j * w + i + 1) = Suc k" "nat (j * w + (i + 1)) = Suc k"
    using jw i by (simp_all add: k_def)
  have s1: "completed_pixels s1 = j * w + i" "\<not> stop_observed (trace s1)" "rng s1 = rng s"
    using cp no assms(3) by (simp_all add: s1_def fields_polled trace_polled stop_observed_append)
  have rend: "rendered c g0 (finish_pixel c i j pc s1)"
    using below buf' jw i s1
    by (simp add: rendered_def fields_finish_pixel stop_observed_finish_pixel nat')
  have "at_pixel c g0 j (i + 1) (finish_pixel c i j pc s1)"
    using s1 g by (simp add: at_pixel_def fields_finish_pixel nat' flip: w_def)
  with rend j i s1 show ?thesis
    by (simp add: pixel_head_def stop_observed_finish_pixel flip: s1_def w_def)
qed

lemma row_loop_rendered:
  assumes once: "write_once (should_stop c)" and w: "0 \<le> image_width (ctx_cam c)"
    and start: "row_head c g0 j s"
  shows "loops_done c g0 (row_loop c j s)"
  by (rule row_loop_rule [where I = "row_head c g0" and R = "pixel_head c g0"
        and P = "sample_head c g0" and S = "samples_tail c g0" and E = "row_tail c g0"
        and F = "loops_done c g0"])
     (blast intro: vc_row [OF once w] vc_cancel [OF once w] vc_finished vc_enter [OF once]
        vc_leave [OF once] vc_over vc_step [OF once] vc_halt [OF once] vc_sampled
        vc_brk [OF once] vc_advance [OF once] vc_ended start)+

section \<open>The invariants through the loops\<close>

lemma trace_finish_pixel:
  "trace (finish_pixel c i j pc s)
   = trace s
     @ [case pixel_bytes (ctx_env c) (ctx_cam c) pc of (r, g, b) \<Rightarrow> Write i j r g b,
        Progress (float_progress (completed_pixels s + 1) (total_pixels c)),
        Clock_read (steady_clock_now c (clock_reads s))]
     @ (if update_due c (report_progress c (write_pixel c i j pc s))
        then [Update_pixel (steady_clock_now c (clock_reads s))] else [])"
  by (simp add: finish_pixel_def step_simps)

lemma stores_append: "stores (evs @ evs') = stores evs @ stores evs'"
  by (induction evs rule: stores.induct) auto

lemma progress_values_append:
  "progress_values (evs @ evs') = progress_values evs @ progress_values evs'"
  by (induction evs rule: progress_values.induct) auto

lemma upto_next: "0 \<le> n \<Longrightarrow> [1..n + 1] = [1..n] @ [n + 1]"
  using upto_rec2 [of 1 "n + 1"] by simp

lemma progress_inv_row_loop:
  assumes "progress_inv c p0 s"
  shows "progress_inv c p0 (row_loop c j s)"
proof (rule row_loop_invariant [where Inv = "progress_inv c p0"])
  fix site s assume "progress_inv c p0 s"
  then show "progress_inv c p0 (polled c site s)"
    by (simp add: progress_inv_def step_simps stores_append progress_values_append)
next
  fix i j k pc s assume "progress_inv c p0 s"
  then show "progress_inv c p0 (snd (take_sample c i j k pc (polled c (Sample_start i j k) s)))"
    by (simp add: progress_inv_def step_simps stores_append progress_values_append)
next
  fix i j pc s assume "progress_inv c p0 s"
  then show "progress_inv c p0 (finish_pixel c i j pc (polled c (Samples_done i j) s))"
    by (simp add: progress_inv_def fields_finish_pixel trace_finish_pixel fields_polled
        trace_polled stores_append progress_values_append upto_next split: prod.splits)
next
  fix j s assume "progress_inv c p0 s"
  then show "progress_inv c p0 (row_end c j s)"
    by (simp add: progress_inv_def step_simps stores_append progress_values_append)
qed (rule assms)

lemma coop_inv_polled:
  assumes "write_once (should_stop c)" "coop_inv c s" "cooperative (trace s) (Poll site (should_stop c (polls s)))"
  shows "coop_inv c (polled c site s)"
  using assms
  by (auto simp: coop_inv_def write_once_def fields_polled trace_polled stop_observed_append
      each_event_append)

lemma coop_clear: "coop_inv c s \<Longrightarrow> \<not> should_stop c (polls s) \<Longrightarrow> \<not> stop_observed (trace s)"
  by (auto simp: coop_inv_def)

lemma coop_inv_row_loop:
  assumes once: "write_once (should_stop c)" and start: "coop_inv c s"
  shows "coop_inv c (row_loop c j s)"
proof (rule row_loop_rule [where I = "\<lambda>j. coop_inv c" and R = "\<lambda>j i. coop_row c j"
      and P = "\<lambda>j i k pc. coop_pixel c j i" and S = "\<lambda>j i pc. coop_pixel c j i"
      and E = "\<lambda>j. coop_inv c" and F = "coop_inv c"])
  fix j s assume "coop_inv c s" "\<not> should_stop c (polls s)"
  then show "coop_row c j (polled c (Row_start j) s)"
    using coop_inv_polled [OF once, of s "Row_start j"]
    by (simp add: coop_row_def cooperative_def trace_polled)
next
  fix j s assume "coop_inv c s"
  then show "coop_inv c (polled c (Row_start j) s)"
    using coop_inv_polled [OF once, of s "Row_start j"] by (simp add: cooperative_def)
next
  fix j i s assume "coop_row c j s" "\<not> should_stop c (polls s)"
  then show "coop_pixel c j i (polled c (Pixel_start i j) s)"
    using coop_inv_polled [OF once, of s "Pixel_start i j"]
    by (simp add: coop_pixel_def coop_row_def cooperative_def trace_polled)
next
  fix j i s assume "coop_row c j s"
  then show "coop_inv c (polled c (Pixel_start i j) s)"
    using coop_inv_polled [OF once, of s "Pixel_start i j"]
    by (simp add: coop_row_def cooperative_def)
next
  fix j i s assume "coop_row c j s"
  then show "coop_inv c s" by (simp add: coop_row_def)
next
  fix j i k pc s pc' s'
  assume a: "coop_pixel c j i s" "\<not> should_stop c (polls s)"
    "take_sample c i j k pc (polled c (Sample_start i j k) s) = (pc', s')"
  have clear: "\<not> stop_observed (trace s)"
    using coop_clear [of c s] a(1,2) by (simp add: coop_pixel_def coop_row_def)
  have p: "coop_inv c (polled c (Sample_start i j k) s)"
    using coop_inv_polled [OF once, of s "Sample_start i j k"] a(1)
    by (simp add: coop_pixel_def coop_row_def cooperative_def)
  have s': "s' = snd (take_sample c i j k pc (polled c (Sample_start i j k) s))"
    using a(3) by simp
  show "coop_pixel c j i s'"
    using a(1,2) p clear unfolding s'
    by (simp add: coop_pixel_def coop_row_def coop_inv_def step_simps each_event_append
        stop_observed_append cooperative_def)
next
  fix j i k pc s assume "coop_pixel c j i s"
  then show "coop_pixel c j i (polled c (Sample_start i j k) s)"
    using coop_inv_polled [OF once, of s "Sample_start i j k"]
    by (simp add: coop_pixel_def coop_row_def cooperative_def trace_polled)
next
  fix j i pc s assume "coop_pixel c j i s"
  then show "coop_inv c (polled c (Samples_done i j) s)"
    using coop_inv_polled [OF once, of s "Samples_done i j"]
    by (simp add: coop_pixel_def coop_row_def cooperative_def)
next
  fix j i pc s assume a: "coop_pixel c j i s" "\<not> should_stop c (polls s)"
  have clear: "\<not> stop_observed (trace s)"
    using coop_clear [of c s] a by (simp add: coop_pixel_def coop_row_def)
  have p: "coop_inv c (polled c (Samples_done i j) s)"
    using coop_inv_polled [OF once, of s "Samples_done i j"] a(1)
    by (simp add: coop_pixel_def coop_row_def cooperative_def)
  show "coop_row c j (finish_pixel c i j pc (polled c (Samples_done i j) s))"
    using a p clear
    by (simp add: coop_pixel_def coop_row_def coop_inv_def trace_finish_pixel fields_finish_pixel
        fields_polled trace_polled each_event_append stop_observed_append cooperative_def
        split: prod.splits)
next
  fix j s assume "coop_inv c s"
  then show "coop_inv c (row_end c j s)"
    by (simp add: coop_inv_def step_simps each_event_append stop_observed_append cooperative_def)
qed (simp_all add: start)

section \<open>One invocation\<close>

lemma ctx_fields [simp]:
  "ctx_env (render_ctx e cam vp world stop clock) = e"
  "ctx_cam (render_ctx e cam vp world stop clock) = cam"
  "ctx_vp (render_ctx e cam vp world stop clock) = vp"
  "ctx_world (render_ctx e cam vp world stop clock) = world"
  "should_stop (render_ctx e cam vp world stop clock) = stop"
  "steady_clock_now (render_ctx e cam vp world stop clock) = clock"
  by (simp_all add: render_ctx_def)

lemma initialize_height:
  assumes "initialize cam = Some vp"
  shows "image_height vp
         = max 1 (trunc (round_double (real_of_int (image_width cam) / aspect_ratio cam)))"
    and "1 \<le> image_height vp"
    and "aspect_ratio cam \<noteq> 0"
    and "INT_MIN \<le> trunc (round_double (real_of_int (image_width cam) / aspect_ratio cam))"
    and "trunc (round_double (real_of_int (image_width cam) / aspect_ratio cam)) \<le> INT_MAX"
  using assms
  by (auto simp: initialize_def double_to_int_def Let_def max_def split: if_splits)

lemma initialize_Some:
  assumes "aspect_ratio cam \<noteq> 0"
    and "INT_MIN \<le> trunc (round_double (real_of_int (image_width cam) / aspect_ratio cam))"
    and "trunc (round_double (real_of_int (image_width cam) / aspect_ratio cam)) \<le> INT_MAX"
  shows "\<exists>vp. initialize cam = Some vp"
  using assms by (simp add: initialize_def double_to_int_def Let_def)

lemma render_Inr:
  assumes "render_to_buffer_with_progress e cam world b0 p0 u0 stop clock g = Inr (oc, s)"
    and "initialize cam = Some vp"
  shows "s = polled (render_ctx e cam vp world stop clock) Render_end
               (row_loop (render_ctx e cam vp world stop clock) 0
                  (initial_state (render_ctx e cam vp world stop clock) b0 p0 u0 g))"
    and "oc = (if stop (polls (row_loop (render_ctx e cam vp world stop clock) 0
                  (initial_state (render_ctx e cam vp world stop clock) b0 p0 u0 g)))
               then Cancelled else Completed)"
    and "0 \<le> image_width cam * image_height vp"
    and "image_width cam * image_height vp * 3 \<le> INT_MAX"
    and "pixel_scale cam \<noteq> None
         \<or> completed_pixels (row_loop (render_ctx e cam vp world stop clock) 0
                  (initial_state (render_ctx e cam vp world stop clock) b0 p0 u0 g)) \<le> 0"
  using assms
  by (auto simp: render_to_buffer_with_progress_def Let_def split: if_splits)

lemma render_runs:
  assumes "initialize cam = Some vp"
    and "0 \<le> image_width cam * image_height vp" "image_width cam * image_height vp * 3 \<le> INT_MAX"
    and "sample_count cam \<noteq> 0"
  shows "render_to_buffer_with_progress e cam world b0 p0 u0 stop clock g
         = Inr (if stop (polls (row_loop (render_ctx e cam vp world stop clock) 0
                  (initial_state (render_ctx e cam vp world stop clock) b0 p0 u0 g)))
                then Cancelled else Completed,
                polled (render_ctx e cam vp world stop clock) Render_end
                  (row_loop (render_ctx e cam vp world stop clock) 0
                     (initial_state (render_ctx e cam vp world stop clock) b0 p0 u0 g)))"
  using assms
  by (simp add: render_to_buffer_with_progress_def Let_def INT_MIN_def pixel_scale_def)



lemma progress_inv_initial: "progress_inv c p0 (initial_state c b0 p0 u0 g)"
  by (simp add: progress_inv_def initial_state_def)

lemma coop_inv_initial: "coop_inv c (initial_state c b0 p0 u0 g)"
  by (simp add: coop_inv_def initial_state_def cooperative_def)

lemma row_head_initial:
  assumes "0 \<le> total_pixels c" "0 \<le> image_height (ctx_vp c)"
  shows "row_head c g 0 (initial_state c b0 p0 u0 g)"
  using assms
  by (simp add: row_head_def rendered_def at_pixel_def initial_state_def expected_image_def
      rng_at_def fill_def resize_def map_replicate_const nat_mult_distrib mult.commute)

text \<open>What holds when the loops are left, for a flag that is set at most once.\<close>

lemma loops_facts:
  fixes e :: "('w, 'm, 'g) env" and world :: 'w and clock :: "nat \<Rightarrow> real"
    and b0 :: "byte list" and p0 :: real and u0 :: bool and g :: 'g
  assumes once: "write_once stop"
    and init: "initialize cam = Some vp"
    and size: "0 \<le> image_width cam * image_height vp"
  defines "c \<equiv> render_ctx e cam vp world stop clock"
  defines "s1 \<equiv> row_loop c 0 (initial_state c b0 p0 u0 g)"
  shows "coop_inv c s1" and "loops_done c g s1" and "progress_inv c p0 s1"
proof -
  have once': "write_once (should_stop c)" using once by (simp add: c_def)
  show "coop_inv c s1"
    unfolding s1_def by (rule coop_inv_row_loop [OF once' coop_inv_initial])
  show "progress_inv c p0 s1"
    unfolding s1_def by (rule progress_inv_row_loop [OF progress_inv_initial])
  have tot: "0 \<le> total_pixels c"
    using size by (simp add: total_pixels_def c_def)
  have h: "1 \<le> image_height (ctx_vp c)" using initialize_height(2) [OF init] by (simp add: c_def)
  have w: "0 \<le> image_width (ctx_cam c)"
    using tot h by (simp add: total_pixels_def zero_le_mult_iff)
  show "loops_done c g s1"
    unfolding s1_def using row_head_initial [OF tot, of g b0 p0 u0] h
    by (intro row_loop_rendered [OF once' w]) simp
qed

lemma loops_left:
  assumes once: "write_once stop"
    and run: "render_to_buffer_with_progress e cam world b0 p0 u0 stop clock g = Inr (oc, s)"
    and init: "initialize cam = Some vp"
  defines "c \<equiv> render_ctx e cam vp world stop clock"
  defines "s1 \<equiv> row_loop c 0 (initial_state c b0 p0 u0 g)"
  shows "s = polled c Render_end s1"
    and "oc = (if stop (polls s1) then Cancelled else Completed)"
    and "coop_inv c s1" and "loops_done c g s1" and "progress_inv c p0 s1"
    and "pixel_scale cam \<noteq> None \<or> completed_pixels s1 \<le> 0"
proof -
  show "s = polled c Render_end s1" "oc = (if stop (polls s1) then Cancelled else Completed)"
    "pixel_scale cam \<noteq> None \<or> completed_pixels s1 \<le> 0"
    using render_Inr(1,2,5) [OF run init] by (simp_all add: c_def s1_def)
  show "coop_inv c s1" "loops_done c g s1" "progress_inv c p0 s1"
    unfolding c_def s1_def by (rule loops_facts [OF once init render_Inr(3) [OF run init]])+
qed

lemma max_trunc_floor: "max 1 (trunc d) = max 1 \<lfloor>d\<rfloor>"
proof (cases "0 \<le> d")
  case True
  then show ?thesis by (simp add: trunc_def)
next
  case False
  then have "\<lceil>d\<rceil> \<le> 0" "\<lfloor>d\<rfloor> \<le> 0" by (simp_all add: ceiling_le_zero le_floor_iff floor_le_iff)
  with False show ?thesis by (simp add: trunc_def)
qed


lemma sorted_progress:
  assumes "0 \<le> a" "1 \<le> n"
  shows "sorted (map (\<lambda>k. float_progress k n) [a..b])"
proof -
  have "sorted_wrt (\<lambda>x y. float_progress x n \<le> float_progress y n) [a..b]"
  proof (rule sorted_wrt_mono_rel [of "[a..b]" "(\<le>)"])
    fix x y :: int assume "x \<in> set [a..b]" "y \<in> set [a..b]" "x \<le> y"
    with assms show "float_progress x n \<le> float_progress y n"
      by (intro float_progress_mono) simp_all
  next
    show "sorted_wrt (\<le>) [a..b]" by simp
  qed
  then show ?thesis by (simp only: sorted_map)
qed

text \<open>The state after an invocation, for a flag that is set at most once.\<close>

lemma cancellation_facts:
  assumes once: "write_once stop"
    and run: "render_to_buffer_with_progress e cam world b0 p0 u0 stop clock g = Inr (oc, s)"
    and init: "initialize cam = Some vp"
  shows "(oc = Cancelled) = stop_observed (trace s)"
    and "0 \<le> completed_pixels s \<and> completed_pixels s \<le> image_width cam * image_height vp"
    and "buffer s = expected_image e cam vp world g (nat (completed_pixels s))
                  @ replicate (3 * nat (image_width cam * image_height vp - completed_pixels s)) 0"
    and "\<not> stop_observed (trace s) \<longrightarrow> completed_pixels s = image_width cam * image_height vp"
    and "stop_observed (butlast (trace s))
         \<longrightarrow> completed_pixels s < image_width cam * image_height vp \<or> image_width cam = 0"
    and "\<not> stop_observed (butlast (trace s))
         \<longrightarrow> completed_pixels s = image_width cam * image_height vp"
proof -
  define c where "c = render_ctx e cam vp world stop clock"
  define s1 where "s1 = row_loop c 0 (initial_state c b0 p0 u0 g)"
  note left = loops_left [OF once run init, folded c_def s1_def]
  have s: "s = polled c Render_end s1" by (rule left(1))
  have mono: "stop_observed (trace s1) \<longrightarrow> stop (polls s1)"
    using left(3) by (simp add: coop_inv_def c_def)
  have tot: "total_pixels c = image_width cam * image_height vp"
    by (simp add: total_pixels_def c_def)
  have h: "1 \<le> image_height vp" by (rule initialize_height(2) [OF init])
  have rend: "rendered c g s1"
    and fin: "cut_short c s1 \<or> \<not> stop_observed (trace s1) \<and> completed_pixels s1 = total_pixels c"
    using left(4) by (simp_all add: loops_done_def)
  have but: "butlast (trace s) = trace s1" by (simp add: s trace_polled)
  have cs: "completed_pixels s = completed_pixels s1" by (simp add: s fields_polled)
  have zero: "total_pixels c = 0 \<longleftrightarrow> image_width cam = 0" using h by (simp add: tot)
  show "(oc = Cancelled) = stop_observed (trace s)"
    using mono left(2) by (auto simp: s trace_polled stop_observed_append c_def)
  show "0 \<le> completed_pixels s \<and> completed_pixels s \<le> image_width cam * image_height vp"
    using rend by (simp add: rendered_def cs tot)
  show "buffer s = expected_image e cam vp world g (nat (completed_pixels s))
                  @ replicate (3 * nat (image_width cam * image_height vp - completed_pixels s)) 0"
    using rend by (simp add: rendered_def s fields_polled tot) (simp add: c_def)
  show "stop_observed (butlast (trace s))
         \<longrightarrow> completed_pixels s < image_width cam * image_height vp \<or> image_width cam = 0"
    using fin zero by (auto simp: but cs cut_short_def tot)
  show "\<not> stop_observed (butlast (trace s))
         \<longrightarrow> completed_pixels s = image_width cam * image_height vp"
    using fin by (auto simp: but cs cut_short_def tot)
  moreover have "stop_observed (trace s1) \<longrightarrow> stop_observed (trace s)"
    by (simp add: s trace_polled stop_observed_append)
  ultimately show "\<not> stop_observed (trace s) \<longrightarrow> completed_pixels s = image_width cam * image_height vp"
    unfolding but by blast
qed

text \<open>A render that nobody cancels leaves the expected image, whatever the clock says.\<close>

lemma uncancelled_loops:
  fixes e :: "('w, 'm, 'g) env" and world :: 'w and clock :: "nat \<Rightarrow> real"
    and b0 :: "byte list" and p0 :: real and u0 :: bool and g :: 'g
  assumes never: "\<forall>n. \<not> stop n"
    and init: "initialize cam = Some vp"
    and size: "0 \<le> image_width cam * image_height vp"
  defines "c \<equiv> render_ctx e cam vp world stop clock"
  defines "s1 \<equiv> row_loop c 0 (initial_state c b0 p0 u0 g)"
  shows "completed_pixels s1 = image_width cam * image_height vp"
    and "buffer s1 = expected_image e cam vp world g (nat (image_width cam * image_height vp))"
    and "\<not> stop (polls s1)"
proof -
  have once: "write_once stop" using never by (simp add: write_once_def)
  have coop: "coop_inv c s1" and fin: "loops_done c g s1"
    unfolding c_def s1_def by (rule loops_facts [OF once init size])+
  have no: "\<not> stop_observed (trace s1)"
    using coop never by (auto simp: coop_inv_def c_def)
  have tot: "total_pixels c = image_width cam * image_height vp"
    by (simp add: total_pixels_def c_def)
  show all: "completed_pixels s1 = image_width cam * image_height vp"
    using fin no by (simp add: loops_done_def cut_short_def tot)
  show "buffer s1 = expected_image e cam vp world g (nat (image_width cam * image_height vp))"
    using fin by (simp add: loops_done_def rendered_def all tot) (simp add: c_def)
  show "\<not> stop (polls s1)" using never by simp
qed

lemma uncancelled_render:
  assumes never: "\<forall>n. \<not> stop n"
  shows "(case render_to_buffer_with_progress e cam world b0 p0 u0 stop clock g of
            Inl err \<Rightarrow> Inl err
          | Inr (oc, s) \<Rightarrow> Inr (buffer s)) = rendered_image e cam world g"
    and "case render_to_buffer_with_progress e cam world b0 p0 u0 stop clock g of
            Inl err \<Rightarrow> True
          | Inr (oc, s) \<Rightarrow> oc = Completed \<and> 3 * completed_pixels s = int (length (buffer s))"
proof -
  have both: "(case render_to_buffer_with_progress e cam world b0 p0 u0 stop clock g of
            Inl err \<Rightarrow> Inl err
          | Inr (oc, s) \<Rightarrow> Inr (buffer s)) = rendered_image e cam world g
      \<and> (case render_to_buffer_with_progress e cam world b0 p0 u0 stop clock g of
            Inl err \<Rightarrow> True
          | Inr (oc, s) \<Rightarrow> oc = Completed \<and> 3 * completed_pixels s = int (length (buffer s)))"
  proof (cases "initialize cam")
    case None
    then show ?thesis
      by (simp add: render_to_buffer_with_progress_def rendered_image_def)
  next
    case (Some vp)
    define n where "n = image_width cam * image_height vp"
    show ?thesis
    proof (cases "n * 3 < INT_MIN \<or> INT_MAX < n * 3 \<or> n * 3 < 0")
      case True
      then show ?thesis
        by (auto simp: render_to_buffer_with_progress_def rendered_image_def Some Let_def n_def)
    next
      case False
      then have size: "0 \<le> image_width cam * image_height vp" by (simp add: n_def)
      define c where "c = render_ctx e cam vp world stop clock"
      define s1 where "s1 = row_loop c 0 (initial_state c b0 p0 u0 g)"
      have loops: "completed_pixels s1 = n" "buffer s1 = expected_image e cam vp world g (nat n)"
        "\<not> stop (polls s1)"
        unfolding c_def s1_def n_def by (rule uncancelled_loops [OF never Some size])+
      have len: "3 * n = int (length (expected_image e cam vp world g (nat n)))"
        using size by (simp add: length_expected_image n_def)
      have stop: "should_stop c = stop" by (simp add: c_def)
      from False loops len show ?thesis
        by (simp add: render_to_buffer_with_progress_def rendered_image_def Some Let_def
            fields_polled stop flip: n_def c_def s1_def)
    qed
  qed
  from both show "(case render_to_buffer_with_progress e cam world b0 p0 u0 stop clock g of
            Inl err \<Rightarrow> Inl err
          | Inr (oc, s) \<Rightarrow> Inr (buffer s)) = rendered_image e cam world g" ..
  from both show "case render_to_buffer_with_progress e cam world b0 p0 u0 stop clock g of
            Inl err \<Rightarrow> True
          | Inr (oc, s) \<Rightarrow> oc = Completed \<and> 3 * completed_pixels s = int (length (buffer s))" ..
qed

subsection \<open>Runs of the small scene\<close>

lemma small_camera_fields [simp]:
  "aspect_ratio (small_camera w a) = a"
  "image_width (small_camera w a) = w"
  "samples_per_pixel (small_camera w a) = 10"
  "max_depth (small_camera w a) = 10"
  "defocus_angle (small_camera w a) = 0"
  "enable_antialiasing (small_camera w a) = False"
  "enable_shadows (small_camera w a) = True"
  "enable_reflections (small_camera w a) = True"
  "enable_refractions (small_camera w a) = True"
  "sample_count (small_camera w a) = 1"
  by (simp_all add: small_camera_def default_camera_def sample_count_def)

lemma small_camera_initialize:
  assumes "a \<noteq> 0" "INT_MIN \<le> trunc (round_double (real_of_int w / a))"
    "trunc (round_double (real_of_int w / a)) \<le> INT_MAX"
  obtains vp where "initialize (small_camera w a) = Some vp"
    and "image_height vp = max 1 (trunc (round_double (real_of_int w / a)))"
  using initialize_Some [of "small_camera w a"] initialize_height(1) [of "small_camera w a"] assms
  by auto

lemma absorbed_sample:
  "one_sample demo_env (small_camera w a) vp (Some False) i j g = (Vec3 0 0 0, Suc g)"
  by (simp add: one_sample_def get_ray_def ray_color.simps demo_env_def)

lemma clamp_intensity_0: "clamp intensity 0 = 0"
  by (simp add: clamp_def intensity_def round_double_999)

lemma black_bytes:
  "pixel_bytes demo_env (small_camera w a) (Vec3 0 0 0) = (0, 0, 0)"
  by (simp add: pixel_bytes_def pixel_scale_def times_assign_def vround_def smul_def demo_env_def
      clamp_intensity_0 to_byte_def trunc_def)

lemma vec_zero_add: "plus_assign (Vec3 0 0 0) (Vec3 0 0 0) = Vec3 0 0 0"
  by (simp add: plus_assign_def vround_def plus_vec3_def)

lemma float_progress_half: "float_progress 1 2 = 1/2"
  by (simp add: float_progress_def round_float_numeral round_float_half)

lemmas run_simps = row_loop.simps pixel_loop.simps sample_loop.simps
  polled_def emit_def initial_state_def take_sample_def finish_pixel_def write_pixel_def
  report_progress_def notify_update_def row_end_def total_pixels_def update_frequency_def
  update_interval_def Let_def signed_divide_int_def signed_modulo_int_def fill_def resize_def
  float_progress_half float_progress_all absorbed_sample black_bytes vec_zero_add

text \<open>The 1 by 2 image of the absorbing scene, on a clock that stands still.\<close>

lemma small_1x2:
  obtains vp where "initialize (small_camera 1 (1/2)) = Some vp" and "image_height vp = 2"
  by (rule small_camera_initialize [of "1/2" 1])
     (simp_all add: round_double_numeral trunc_def INT_MIN_def INT_MAX_def)

lemma small_1x1:
  obtains vp where "initialize (small_camera 1 1) = Some vp" and "image_height vp = 1"
  by (rule small_camera_initialize [of 1 1]) (simp_all add: trunc_def INT_MIN_def INT_MAX_def)

lemma small_0x1:
  obtains vp where "initialize (small_camera 0 1) = Some vp" and "image_height vp = 1"
  by (rule small_camera_initialize [of 1 0]) (simp_all add: trunc_def INT_MIN_def INT_MAX_def)

lemma small_runs:
  assumes vp: "initialize (small_camera w a) = Some vp"
    and size: "0 \<le> w * image_height vp" "w * image_height vp * 3 \<le> INT_MAX"
  shows "render_to_buffer_with_progress e (small_camera w a) world b0 p0 u0 stop clock g
         = Inr (if stop (polls (row_loop (render_ctx e (small_camera w a) vp world stop clock) 0
                  (initial_state (render_ctx e (small_camera w a) vp world stop clock) b0 p0 u0 g)))
                then Cancelled else Completed,
                polled (render_ctx e (small_camera w a) vp world stop clock) Render_end
                  (row_loop (render_ctx e (small_camera w a) vp world stop clock) 0
                     (initial_state (render_ctx e (small_camera w a) vp world stop clock) b0 p0 u0 g)))"
  by (rule render_runs [OF vp]) (use size in simp_all)

lemma run_1x2_uncancelled:
  assumes vp: "initialize (small_camera 1 (1/2)) = Some vp" "image_height vp = 2"
  defines "c \<equiv> render_ctx demo_env (small_camera 1 (1/2)) vp (Some False) (\<lambda>n. False) (\<lambda>n. 0)"
  defines "s \<equiv> polled c Render_end (row_loop c 0 (initial_state c [] 0 False 0))"
  shows "render_to_buffer_with_progress demo_env (small_camera 1 (1/2)) (Some False) [] 0 False
            (\<lambda>n. False) (\<lambda>n. 0) 0 = Inr (Completed, s)"
    and "completed_pixels s = 2"
proof -
  show "render_to_buffer_with_progress demo_env (small_camera 1 (1/2)) (Some False) [] 0 False
            (\<lambda>n. False) (\<lambda>n. 0) 0 = Inr (Completed, s)"
    by (subst small_runs [OF vp(1)]) (simp_all add: vp(2) INT_MAX_def c_def s_def)
  show "completed_pixels s = 2"
    by (simp add: s_def c_def run_simps vp(2))
qed

lemma scenario_initialize:
  obtains vp where "initialize scenario_camera = Some vp" and "image_height vp = 11"
proof -
  have q: "round_double (real_of_int (image_width scenario_camera) / aspect_ratio scenario_camera)
           = 11"
    by (simp add: scenario_camera_def default_camera_def round_double_20_11
        round_double_height_11)
  have "\<exists>vp. initialize scenario_camera = Some vp"
    by (rule initialize_Some) (simp_all add: q trunc_def INT_MIN_def INT_MAX_def,
        simp add: scenario_camera_def default_camera_def round_double_20_11)
  then obtain vp where vp: "initialize scenario_camera = Some vp" ..
  have "image_height vp = 11"
    using initialize_height(1) [OF vp] by (simp add: q trunc_def)
  with vp show thesis by (rule that)
qed

lemma scenario_runs:
  obtains oc s where
    "render_to_buffer_with_progress e scenario_camera world b0 p0 u0 stop clock g = Inr (oc, s)"
proof -
  obtain vp where vp: "initialize scenario_camera = Some vp" "image_height vp = 11"
    by (rule scenario_initialize)
  have "0 \<le> image_width scenario_camera * image_height vp"
    "image_width scenario_camera * image_height vp * 3 \<le> INT_MAX"
    "sample_count scenario_camera \<noteq> 0"
    by (simp_all add: vp(2) scenario_camera_def default_camera_def INT_MAX_def sample_count_def)
  then show thesis
    by (rule that [OF render_runs [OF vp(1)]])
qed

section \<open>The claims about the render loop\<close>




text \<open>
  C2, as the code has it. For a flag that is set at most once during the invocation:
  \<^item> the flag is read at the start of every row, at the start of every pixel, directly before
    every sample and directly before the write of a pixel (\<open>cooperative\<close>);
  \<^item> after a load that returned true there is no further sample, write, progress store or
    per-pixel notification (\<open>cooperative\<close>), and the invocation ends as \<open>Cancelled\<close> exactly
    when some load returned true;
  \<^item> the buffer holds the expected bytes of the completed pixels, which are the first
    pixels in row-major order, followed by the zeros of the initial clear;
  \<^item> the progress is the \<open>float\<close> quotient of the completed pixels and all pixels, or still
    the caller's value when no pixel was completed;
  \<^item> when a load inside the loops returned true (all loads but the last one, after the
    loops), a pixel is left undone or the image has width 0; the progress is then below 1
    or still the caller's value, provided that the image has at most \<open>2^24\<close> pixels (with
    more, the \<open>float\<close> quotient can be 1 while a pixel is undone);
  \<^item> when no load inside the loops returned true, all pixels are complete, and the progress
    is 1 unless the image has width 0: also when the invocation ends as \<open>Cancelled\<close> because
    the load after the loops returned true.
\<close>

theorem cancellation_is_cooperative:
  assumes once: "write_once stop"
    and run: "render_to_buffer_with_progress e cam world b0 p0 u0 stop clock g = Inr (oc, s)"
    and init: "initialize cam = Some vp"
  shows "each_event cooperative [] (trace s)
    \<and> (oc = Cancelled) = stop_observed (trace s)
    \<and> 0 \<le> completed_pixels s \<and> completed_pixels s \<le> image_width cam * image_height vp
    \<and> buffer s = expected_image e cam vp world g (nat (completed_pixels s))
                  @ replicate (3 * nat (image_width cam * image_height vp - completed_pixels s)) 0
    \<and> progress s = (if completed_pixels s = 0 then p0
                      else float_progress (completed_pixels s) (image_width cam * image_height vp))
    \<and> (if stop_observed (butlast (trace s))
        then completed_pixels s < image_width cam * image_height vp \<or> image_width cam = 0
        else completed_pixels s = image_width cam * image_height vp)
    \<and> (stop_observed (butlast (trace s)) \<and> image_width cam * image_height vp \<le> 16777216
         \<longrightarrow> progress s < 1 \<or> progress s = p0)
    \<and> (\<not> stop_observed (butlast (trace s)) \<and> image_width cam \<noteq> 0 \<longrightarrow> progress s = 1)"
proof -
  define c where "c = render_ctx e cam vp world stop clock"
  define s1 where "s1 = row_loop c 0 (initial_state c b0 p0 u0 g)"
  define n where "n = image_width cam * image_height vp"
  note left = loops_left [OF once run init, folded c_def s1_def]
  note facts = cancellation_facts [OF once run init, folded n_def]
  have s: "s = polled c Render_end s1" by (rule left(1))
  have coop: "each_event cooperative [] (trace s1)"
    using left(3) by (simp add: coop_inv_def)
  have tot: "total_pixels c = n"
    by (simp add: total_pixels_def c_def n_def)
  have h: "1 \<le> image_height vp" by (rule initialize_height(2) [OF init])
  have 1: "each_event cooperative [] (trace s)"
    using coop by (simp add: s trace_polled each_event_append cooperative_def)
  have 5: "progress s = (if completed_pixels s = 0 then p0
                      else float_progress (completed_pixels s) n)"
    using left(5) by (simp add: progress_inv_def s fields_polled tot)
  have 6: "if stop_observed (butlast (trace s))
        then completed_pixels s < n \<or> image_width cam = 0
        else completed_pixels s = n"
    using facts(5,6) by simp
  have 7: "progress s < 1 \<or> progress s = p0"
    if "stop_observed (butlast (trace s))" "n \<le> 16777216"
  proof (cases "completed_pixels s = 0")
    case True
    with 5 show ?thesis by simp
  next
    case False
    with facts(2) have pos: "0 < completed_pixels s" by simp
    with facts(2) h have "image_width cam \<noteq> 0" by (auto simp: n_def)
    with 6 that have "completed_pixels s < n" by simp
    with pos that have "float_progress (completed_pixels s) n < 1"
      by (intro float_progress_below_one) simp_all
    moreover have "progress s = float_progress (completed_pixels s) n"
      using False 5 by (simp only: if_False)
    ultimately show ?thesis by (simp only: simp_thms)
  qed
  have 8: "progress s = 1" if "\<not> stop_observed (butlast (trace s))" "image_width cam \<noteq> 0"
  proof -
    have all: "completed_pixels s = n" using 6 that by simp
    have "0 \<le> image_width cam * image_height vp" using facts(2) by (simp add: n_def)
    with h have "0 \<le> image_width cam" by (simp add: zero_le_mult_iff)
    with that have "1 \<le> image_width cam" by simp
    with h have "1 * 1 \<le> image_width cam * image_height vp" by (intro mult_mono) simp_all
    then have "1 \<le> n" by (simp add: n_def)
    then show ?thesis using 5 by (simp add: all float_progress_all)
  qed
  from 1 facts(1,2,3) 5 6 7 8 show ?thesis unfolding n_def by blast
qed

theorem cancellation_is_cooperative_witness:
  "write_once (\<lambda>n. 5 \<le> n)
   \<and> (case render_to_buffer_with_progress demo_env (small_camera 1 (1/2)) (Some False) [] 0 False
            (\<lambda>n. 5 \<le> n) (\<lambda>n. 0) 0 of
        Inl err \<Rightarrow> False
      | Inr (oc, s) \<Rightarrow>
          oc = Cancelled
          \<and> stop_observed (butlast (trace s))
          \<and> each_event cooperative [] (trace s)
          \<and> completed_pixels s = 1
          \<and> buffer s = expected_image demo_env (small_camera 1 (1/2))
                          (the (initialize (small_camera 1 (1/2)))) (Some False) 0 1
                        @ [0, 0, 0]
          \<and> progress s = 1/2)
   \<and> write_once (\<lambda>n. False)
   \<and> (case render_to_buffer_with_progress demo_env (small_camera 1 (1/2)) (Some False) [] 0 False
            (\<lambda>n. False) (\<lambda>n. 0) 0 of
        Inl err \<Rightarrow> False
      | Inr (oc, s) \<Rightarrow>
          oc = Completed \<and> \<not> stop_observed (butlast (trace s)) \<and> progress s = 1)"
proof -
  obtain vp where vp: "initialize (small_camera 1 (1/2)) = Some vp" "image_height vp = 2"
    by (rule small_1x2)
  have size: "0 \<le> 1 * image_height vp" "1 * image_height vp * 3 \<le> INT_MAX"
    by (simp_all add: vp(2) INT_MAX_def)
  have once: "write_once (\<lambda>n. 5 \<le> n)" by (simp add: write_once_def)
  define c where "c = render_ctx demo_env (small_camera 1 (1/2)) vp (Some False) (\<lambda>n. 5 \<le> n) (\<lambda>n. 0)"
  define s where "s = polled c Render_end (row_loop c 0 (initial_state c [] 0 False 0))"
  have run: "render_to_buffer_with_progress demo_env (small_camera 1 (1/2)) (Some False) [] 0 False
            (\<lambda>n. 5 \<le> n) (\<lambda>n. 0) 0
      = Inr (if 5 \<le> polls (row_loop c 0 (initial_state c [] 0 False 0)) then Cancelled else Completed, s)"
    by (simp add: small_runs [OF vp(1) size] c_def s_def)
  have polls: "polls (row_loop c 0 (initial_state c [] 0 False 0)) = 6"
    by (simp add: c_def run_simps vp(2))
  have tr: "trace s = [Clock_read 0,
          Poll (Row_start 0) False, Poll (Pixel_start 0 0) False,
          Poll (Sample_start 0 0 0) False, Sample 0 0 0, Poll (Samples_done 0 0) False,
          Write 0 0 0 0 0, Progress (1/2), Clock_read 0, Update_pixel 0,
          Update_row 0,
          Poll (Row_start 1) False, Poll (Pixel_start 0 1) True,
          Update_row 1,
          Poll Render_end True]"
    by (simp add: s_def c_def run_simps vp(2))
  have cp: "completed_pixels s = 1"
    by (simp add: s_def c_def run_simps vp(2))
  note coop = cancellation_is_cooperative [OF once run [unfolded polls] vp(1)]
  have "each_event cooperative [] (trace s)" using coop by simp
  moreover have "buffer s = expected_image demo_env (small_camera 1 (1/2)) vp (Some False) 0 1 @ [0, 0, 0]"
    using coop by (simp add: cp vp(2) numeral_3_eq_3)
  moreover have "progress s = 1/2" using coop by (simp add: cp vp(2) float_progress_half)
  moreover have "stop_observed (butlast (trace s))" by (simp add: tr)
  ultimately have first: "case render_to_buffer_with_progress demo_env (small_camera 1 (1/2))
            (Some False) [] 0 False (\<lambda>n. 5 \<le> n) (\<lambda>n. 0) 0 of
        Inl err \<Rightarrow> False
      | Inr (oc, s) \<Rightarrow>
          oc = Cancelled
          \<and> stop_observed (butlast (trace s))
          \<and> each_event cooperative [] (trace s)
          \<and> completed_pixels s = 1
          \<and> buffer s = expected_image demo_env (small_camera 1 (1/2))
                          (the (initialize (small_camera 1 (1/2)))) (Some False) 0 1
                        @ [0, 0, 0]
          \<and> progress s = 1/2"
    by (simp add: run polls cp vp(1))
  define c' where "c' = render_ctx demo_env (small_camera 1 (1/2)) vp (Some False) (\<lambda>n. False) (\<lambda>n. 0)"
  define s' where "s' = polled c' Render_end (row_loop c' 0 (initial_state c' [] 0 False 0))"
  note run' = run_1x2_uncancelled [OF vp, folded c'_def s'_def]
  have never: "write_once (\<lambda>n. False)" by (simp add: write_once_def)
  have clear: "\<not> stop_observed (butlast (trace s'))"
    by (simp add: s'_def c'_def run_simps vp(2))
  have "progress s' = 1"
    using cancellation_is_cooperative [OF never run'(1) vp(1)] clear
    by (simp add: vp(2) float_progress_all)
  with clear have second: "case render_to_buffer_with_progress demo_env (small_camera 1 (1/2))
            (Some False) [] 0 False (\<lambda>n. False) (\<lambda>n. 0) 0 of
        Inl err \<Rightarrow> False
      | Inr (oc, s) \<Rightarrow>
          oc = Completed \<and> \<not> stop_observed (butlast (trace s)) \<and> progress s = 1"
    by (simp add: run'(1))
  from once first never second show ?thesis by blast
qed

text \<open>
  C2 as stated fails. The flag is set after the only pixel of a 1 by 1 image was written and
  is first seen by the check after the loops: the invocation ends as \<open>Cancelled\<close> ("Render
  stopped at 1/1 pixels"), and the progress is 1.
\<close>

theorem cancel_after_last_pixel_counterexample:
  "write_once (\<lambda>n. 4 \<le> n)
   \<and> (case render_to_buffer_with_progress demo_env (small_camera 1 1) (Some False) [] 0 False
            (\<lambda>n. 4 \<le> n) (\<lambda>n. 0) 0 of
        Inl err \<Rightarrow> False
      | Inr (oc, s) \<Rightarrow>
          oc = Cancelled
          \<and> trace s = [Clock_read 0,
                Poll (Row_start 0) False, Poll (Pixel_start 0 0) False,
                Poll (Sample_start 0 0 0) False, Sample 0 0 0, Poll (Samples_done 0 0) False,
                Write 0 0 0 0 0, Progress 1, Clock_read 0, Update_pixel 0,
                Update_row 0,
                Poll Render_end True]
          \<and> completed_pixels s = 1
          \<and> progress s = 1
          \<and> \<not> progress s < 1)"
proof -
  obtain vp where vp: "initialize (small_camera 1 1) = Some vp" "image_height vp = 1"
    by (rule small_1x1)
  have size: "0 \<le> 1 * image_height vp" "1 * image_height vp * 3 \<le> INT_MAX"
    by (simp_all add: vp(2) INT_MAX_def)
  have once: "write_once (\<lambda>n. 4 \<le> n)" by (simp add: write_once_def)
  show ?thesis
    by (simp add: small_runs [OF vp(1) size] once) (simp add: run_simps vp(2))
qed

text \<open>An image of width 0 has no pixel to complete, whatever the flag does.\<close>

lemma no_pixels:
  fixes s :: "'g render_state"
  assumes "image_width (ctx_cam c) = 0" and "completed_pixels s = 0 \<and> buffer s = []"
  shows "completed_pixels (row_loop c j s) = 0 \<and> buffer (row_loop c j s) = []"
proof (rule row_loop_rule [where I = "\<lambda>j (s :: 'g render_state). completed_pixels s = 0 \<and> buffer s = []"
      and R = "\<lambda>j i (s :: 'g render_state). 0 \<le> i \<and> completed_pixels s = 0 \<and> buffer s = []"
      and P = "\<lambda>j i k pc s. False" and S = "\<lambda>j i pc s. False"
      and E = "\<lambda>j (s :: 'g render_state). completed_pixels s = 0 \<and> buffer s = []"
      and F = "\<lambda>s :: 'g render_state. completed_pixels s = 0 \<and> buffer s = []"])
  fix j and s :: "'g render_state" assume "completed_pixels s = 0 \<and> buffer s = []"
  then show "completed_pixels (row_end c j s) = 0 \<and> buffer (row_end c j s) = []"
    by (simp add: fields_row_end)
qed (use assms in \<open>simp_all add: fields_polled\<close>)

text \<open>
  C7, as the code has it. Of the configuration, initialization clamps the derived image
  height and nothing else.
  \<^item> An invocation that gets as far as the loop has derived the image height from the
    \<open>double\<close> quotient \<open>image_width / aspect_ratio\<close>: its floor, clamped below to 1 (the
    truncation of the source and the floor agree above the clamp). So the height is
    positive, also for a negative aspect ratio. And its \<open>image_width\<close> is not negative.
  \<^item> A negative \<open>image_width\<close> ends the invocation before any pixel is rendered: the resize
    of the buffer fails, or the size is outside \<open>int\<close>.
  \<^item> An \<open>aspect_ratio\<close> of 0 is a division by zero: undefined behaviour.
  \<^item> An \<open>image_width\<close> of 0 is accepted: the loop runs on an image of width 0 and completes
    no pixel.
  \<^item> A \<open>max_depth\<close> that is not positive is accepted: every sample is black.
\<close>

theorem image_height_clamped:
  "(\<forall>oc s. render_to_buffer_with_progress e cam world b0 p0 u0 stop clock g = Inr (oc, s)
      \<longrightarrow> (\<exists>vp. initialize cam = Some vp
             \<and> image_height vp
                 = max 1 \<lfloor>round_double (real_of_int (image_width cam) / aspect_ratio cam)\<rfloor>
             \<and> 1 \<le> image_height vp
             \<and> 0 \<le> image_width cam
             \<and> aspect_ratio cam \<noteq> 0))
   \<and> (image_width cam < 0
        \<longrightarrow> render_to_buffer_with_progress e cam world b0 p0 u0 stop clock g
              = Inl Undefined_behaviour
            \<or> render_to_buffer_with_progress e cam world b0 p0 u0 stop clock g
              = Inl Length_error)
   \<and> (aspect_ratio cam = 0
        \<longrightarrow> render_to_buffer_with_progress e cam world b0 p0 u0 stop clock g
            = Inl Undefined_behaviour)
   \<and> (image_width cam = 0 \<and> aspect_ratio cam \<noteq> 0
        \<longrightarrow> (\<exists>oc s. render_to_buffer_with_progress e cam world b0 p0 u0 stop clock g = Inr (oc, s)
                   \<and> completed_pixels s = 0 \<and> buffer s = []))
   \<and> (max_depth cam \<le> 0 \<longrightarrow> fst (one_sample e cam vp' world i j g') = Vec3 0 0 0)"
proof -
  have a: "\<exists>vp. initialize cam = Some vp
             \<and> image_height vp
                 = max 1 \<lfloor>round_double (real_of_int (image_width cam) / aspect_ratio cam)\<rfloor>
             \<and> 1 \<le> image_height vp \<and> 0 \<le> image_width cam \<and> aspect_ratio cam \<noteq> 0"
    if run: "render_to_buffer_with_progress e cam world b0 p0 u0 stop clock g = Inr (oc, s)"
    for oc s
  proof -
    obtain vp where init: "initialize cam = Some vp"
      using run by (auto simp: render_to_buffer_with_progress_def split: option.splits)
    have h: "1 \<le> image_height vp" by (rule initialize_height(2) [OF init])
    have "0 \<le> image_width cam * image_height vp" by (rule render_Inr(3) [OF run init])
    with h have "0 \<le> image_width cam" by (simp add: zero_le_mult_iff)
    with h init initialize_height(1,3) [OF init] show ?thesis
      by (simp add: max_trunc_floor)
  qed
  have b: "render_to_buffer_with_progress e cam world b0 p0 u0 stop clock g = Inl Undefined_behaviour
           \<or> render_to_buffer_with_progress e cam world b0 p0 u0 stop clock g = Inl Length_error"
    if w: "image_width cam < 0"
  proof (cases "initialize cam")
    case None
    then show ?thesis by (simp add: render_to_buffer_with_progress_def)
  next
    case (Some vp)
    have "1 \<le> image_height vp" by (rule initialize_height(2) [OF Some])
    with w have "image_width cam * image_height vp < 0" by (simp add: mult_less_0_iff)
    then show ?thesis
      by (simp add: render_to_buffer_with_progress_def Some Let_def)
  qed
  have c: "render_to_buffer_with_progress e cam world b0 p0 u0 stop clock g = Inl Undefined_behaviour"
    if "aspect_ratio cam = 0"
    using that by (simp add: render_to_buffer_with_progress_def initialize_def)
  have d: "\<exists>oc s. render_to_buffer_with_progress e cam world b0 p0 u0 stop clock g = Inr (oc, s)
                   \<and> completed_pixels s = 0 \<and> buffer s = []"
    if w: "image_width cam = 0" and r: "aspect_ratio cam \<noteq> 0"
  proof -
    have "\<exists>vp. initialize cam = Some vp"
      using r w by (intro initialize_Some) (simp_all add: trunc_def INT_MIN_def INT_MAX_def)
    then obtain vp where init: "initialize cam = Some vp" ..
    define c where "c = render_ctx e cam vp world stop clock"
    have "completed_pixels (row_loop c 0 (initial_state c b0 p0 u0 g)) = 0
          \<and> buffer (row_loop c 0 (initial_state c b0 p0 u0 g)) = []"
      using w
      by (intro no_pixels)
         (simp_all add: c_def initial_state_def total_pixels_def fill_def resize_def)
    with w show ?thesis
      by (simp add: render_to_buffer_with_progress_def init Let_def INT_MIN_def INT_MAX_def
          fields_polled flip: c_def)
  qed
  have e: "fst (one_sample e cam vp' world i j g') = Vec3 0 0 0" if "max_depth cam \<le> 0"
    using that by (simp add: one_sample_def ray_color_exhausted split: prod.splits)
  from a b c d e show ?thesis by blast
qed

theorem image_height_clamped_witness:
  "(case render_to_buffer_with_progress demo_env (small_camera 5 (round_double (5 / 3)))
          (Some False) [] 0 False (\<lambda>n. False) (\<lambda>n. 0) 0 of
      Inl err \<Rightarrow> False
    | Inr (oc, s) \<Rightarrow>
        map_option image_height (initialize (small_camera 5 (round_double (5 / 3)))) = Some 3)
   \<and> render_to_buffer_with_progress demo_env (small_camera (- 1) 1) (Some False) [] 0 False
        (\<lambda>n. False) (\<lambda>n. 0) 0 = Inl Length_error
   \<and> render_to_buffer_with_progress demo_env (small_camera 1 0) (Some False) [] 0 False
        (\<lambda>n. False) (\<lambda>n. 0) 0 = Inl Undefined_behaviour
   \<and> (case render_to_buffer_with_progress demo_env (small_camera 0 1) (Some False) [] 0 False
          (\<lambda>n. False) (\<lambda>n. 0) 0 of
        Inl err \<Rightarrow> False
      | Inr (oc, s) \<Rightarrow> completed_pixels s = 0 \<and> buffer s = [])
   \<and> fst (one_sample demo_env (default_camera \<lparr> max_depth := 0 \<rparr>)
             (the (initialize default_camera)) (Some False) 0 0 0) = Vec3 0 0 0"
proof -
  let ?cam = "small_camera 5 (round_double (5 / 3))"
  have ratio: "round_double (5 / 3) \<noteq> 0" by (simp add: round_double_5_3)
  have q: "round_double (5 / round_double (5 / 3)) = 3"
    by (simp add: round_double_5_3 round_double_height_3)
  obtain vp where vp: "initialize ?cam = Some vp" "image_height vp = 3"
    by (rule small_camera_initialize [of "round_double (5 / 3)" 5])
       (simp_all add: ratio q trunc_def INT_MIN_def INT_MAX_def)
  have size: "0 \<le> 5 * image_height vp" "5 * image_height vp * 3 \<le> INT_MAX"
    by (simp_all add: vp(2) INT_MAX_def)
  obtain oc s where run: "render_to_buffer_with_progress demo_env ?cam (Some False) [] 0 False
      (\<lambda>n. False) (\<lambda>n. 0) 0 = Inr (oc, s)"
    by (simp add: small_runs [OF vp(1) size])
  note clamped = image_height_clamped [where e = demo_env and world = "Some False" and ?b0.0 = "[]"
      and ?p0.0 = 0 and ?u0.0 = False and stop = "\<lambda>n. False" and clock = "\<lambda>n. 0" and g = 0]
  have 1: "case render_to_buffer_with_progress demo_env ?cam (Some False) [] 0 False
          (\<lambda>n. False) (\<lambda>n. 0) 0 of
      Inl err \<Rightarrow> False
    | Inr (oc, s) \<Rightarrow> map_option image_height (initialize ?cam) = Some 3"
    using clamped [where cam = ?cam] by (auto simp: run q)
  have 2: "render_to_buffer_with_progress demo_env (small_camera (- 1) 1) (Some False) [] 0 False
        (\<lambda>n. False) (\<lambda>n. 0) 0 = Inl Length_error"
  proof -
    obtain vn where vn: "initialize (small_camera (- 1) 1) = Some vn" "image_height vn = 1"
      by (rule small_camera_initialize [of 1 "- 1"])
         (simp_all add: round_double_def round_to_int [of "- 1" 53 "- 1022", simplified]
           trunc_def INT_MIN_def INT_MAX_def)
    have "render_to_buffer_with_progress demo_env (small_camera (- 1) 1) (Some False) [] 0 False
        (\<lambda>n. False) (\<lambda>n. 0) 0 \<noteq> Inl Undefined_behaviour"
      by (simp add: render_to_buffer_with_progress_def vn Let_def INT_MIN_def INT_MAX_def)
    with clamped [where cam = "small_camera (- 1) 1"] show ?thesis by simp
  qed
  have 3: "render_to_buffer_with_progress demo_env (small_camera 1 0) (Some False) [] 0 False
        (\<lambda>n. False) (\<lambda>n. 0) 0 = Inl Undefined_behaviour"
    using clamped [where cam = "small_camera 1 0"] by simp
  have 4: "case render_to_buffer_with_progress demo_env (small_camera 0 1) (Some False) [] 0 False
          (\<lambda>n. False) (\<lambda>n. 0) 0 of
        Inl err \<Rightarrow> False
      | Inr (oc, s) \<Rightarrow> completed_pixels s = 0 \<and> buffer s = []"
    using clamped [where cam = "small_camera 0 1"] by auto
  have 5: "fst (one_sample demo_env (default_camera \<lparr> max_depth := 0 \<rparr>)
             (the (initialize default_camera)) (Some False) 0 0 0) = Vec3 0 0 0"
    using clamped [where cam = "default_camera \<lparr> max_depth := 0 \<rparr>"
        and vp' = "the (initialize default_camera)" and i = 0 and j = 0 and g' = 0]
    by simp
  from 1 2 3 4 5 show ?thesis by blast
qed

text \<open>
  C7 as stated fails. With \<open>image_width = 0\<close> nothing is rejected and nothing is clamped:
  the loop starts with an image of width 0, visits row 0 without rendering a pixel, and the
  invocation ends as \<open>Completed\<close> with an empty buffer.
\<close>

theorem degenerate_width_counterexample:
  "image_width (small_camera 0 1) = 0
   \<and> (case render_to_buffer_with_progress demo_env (small_camera 0 1) (Some False) [] 0 False
          (\<lambda>n. False) (\<lambda>n. 0) 0 of
       Inl err \<Rightarrow> False
     | Inr (oc, s) \<Rightarrow>
         oc = Completed \<and> buffer s = [] \<and> completed_pixels s = 0
         \<and> trace s = [Clock_read 0, Poll (Row_start 0) False, Update_row 0, Poll Render_end False])"
proof -
  obtain vp where vp: "initialize (small_camera 0 1) = Some vp" "image_height vp = 1"
    by (rule small_0x1)
  have size: "0 \<le> 0 * image_height vp" "0 * image_height vp * 3 \<le> INT_MAX"
    by (simp_all add: INT_MAX_def)
  show ?thesis
    by (simp add: small_runs [OF vp(1) size]) (simp add: run_simps vp(2))
qed





subsection \<open>The scene of grey samples\<close>







text \<open>
  C6, as the code has it. The writes of pixels and the stores of the progress alternate:
  after the \<open>k\<close>-th write the progress is set to the \<open>float\<close> quotient of \<open>k\<close> and
  \<open>total_pixels\<close>, for \<open>k\<close> from 1 to the number of completed pixels, which is at most
  \<open>total_pixels\<close> and equal to it in a completed render. The values stored are in
  non-decreasing order, also after a value of the caller that is not above 0, and the value
  stored for the last pixel is 1. For an image of at most \<open>2^24\<close> pixels the value stored is
  the quotient \<open>k / total_pixels\<close> rounded once, and it is 1 for the last pixel only.
\<close>

theorem progress_after_every_pixel:
  assumes once: "write_once stop"
    and run: "render_to_buffer_with_progress e cam world b0 p0 u0 stop clock g = Inr (oc, s)"
    and init: "initialize cam = Some vp"
  shows "stores (trace s)
         = concat (map (\<lambda>k. [Pixel_written,
                               Progress_set (float_progress k (image_width cam * image_height vp))])
                    [1..completed_pixels s])
    \<and> progress_values (trace s)
         = map (\<lambda>k. float_progress k (image_width cam * image_height vp)) [1..completed_pixels s]
    \<and> sorted (progress_values (trace s))
    \<and> (p0 \<le> 0 \<longrightarrow> sorted (p0 # progress_values (trace s)))
    \<and> completed_pixels s \<le> image_width cam * image_height vp
    \<and> (oc = Completed \<longrightarrow> completed_pixels s = image_width cam * image_height vp)
    \<and> (0 < completed_pixels s \<and> completed_pixels s = image_width cam * image_height vp
         \<longrightarrow> progress s = 1 \<and> last (progress_values (trace s)) = 1)
    \<and> (image_width cam * image_height vp \<le> 16777216
         \<longrightarrow> (\<forall>k. 1 \<le> k \<and> k \<le> completed_pixels s
                \<longrightarrow> float_progress k (image_width cam * image_height vp)
                    = round_float (real_of_int k / real_of_int (image_width cam * image_height vp))
                    \<and> (float_progress k (image_width cam * image_height vp) = 1)
                      = (k = image_width cam * image_height vp)))"
proof -
  define c where "c = render_ctx e cam vp world stop clock"
  define s1 where "s1 = row_loop c 0 (initial_state c b0 p0 u0 g)"
  define n where "n = image_width cam * image_height vp"
  note left = loops_left [OF once run init, folded c_def s1_def]
  note facts = cancellation_facts [OF once run init, folded n_def]
  have tot: "total_pixels c = n" by (simp add: total_pixels_def c_def n_def)
  have s: "s = polled c Render_end s1" by (rule left(1))
  have 1: "stores (trace s)
         = concat (map (\<lambda>k. [Pixel_written, Progress_set (float_progress k n)])
                    [1..completed_pixels s])"
    and 2: "progress_values (trace s) = map (\<lambda>k. float_progress k n) [1..completed_pixels s]"
    and p: "progress s = (if completed_pixels s = 0 then p0 else float_progress (completed_pixels s) n)"
    using left(5)
    by (simp_all add: progress_inv_def s trace_polled fields_polled stores_append
        progress_values_append tot)
  have n1: "1 \<le> n" if "1 \<le> completed_pixels s" using that facts(2) by simp
  have 3: "sorted (progress_values (trace s))"
  proof (cases "completed_pixels s < 1")
    case True
    then show ?thesis by (simp add: 2)
  next
    case False
    then have "1 \<le> n" by (intro n1) simp
    then show ?thesis unfolding 2 by (intro sorted_progress) simp_all
  qed
  have 4: "sorted (p0 # progress_values (trace s))" if "p0 \<le> 0"
  proof -
    have "p0 \<le> float_progress k n" if "1 \<le> k" "k \<le> completed_pixels s" for k
    proof -
      have "1 \<le> n" using that by (intro n1) simp
      with that have "0 \<le> float_progress k n" by (intro float_progress_nonneg) simp_all
      with \<open>p0 \<le> 0\<close> show ?thesis by simp
    qed
    with 3 show ?thesis by (auto simp: 2)
  qed
  have 6: "oc = Completed \<longrightarrow> completed_pixels s = n"
    using facts(1,4) by auto
  have 7: "progress s = 1 \<and> last (progress_values (trace s)) = 1"
    if "0 < completed_pixels s" "completed_pixels s = n"
  proof -
    have n: "1 \<le> n" using that by simp
    then have "[1..n] = [1..n - 1] @ [n]" using upto_rec2 [of 1 n] by simp
    then have "last (map (\<lambda>k. float_progress k n) [1..n]) = float_progress n n" by simp
    with n that show ?thesis by (simp add: p 2 float_progress_all)
  qed
  have 8: "float_progress k n = round_float (real_of_int k / real_of_int n)
           \<and> (float_progress k n = 1) = (k = n)"
    if "n \<le> 16777216" "1 \<le> k" "k \<le> completed_pixels s" for k
  proof -
    have kn: "k \<le> n" and n: "1 \<le> n" using that facts(2) by simp_all
    have "round_float (real_of_int k) = real_of_int k" "round_float (real_of_int n) = real_of_int n"
      using that kn n by (simp_all add: round_float_int)
    then have a: "float_progress k n = round_float (real_of_int k / real_of_int n)"
      by (simp add: float_progress_def)
    have b: "(float_progress k n = 1) = (k = n)"
    proof (cases "k = n")
      case True
      with n show ?thesis by (simp add: float_progress_all)
    next
      case False
      with kn have "k < n" by simp
      with that have "float_progress k n < 1" by (intro float_progress_below_one) simp_all
      with False show ?thesis by simp
    qed
    from a b show ?thesis ..
  qed
  from 1 2 3 4 facts(2) 6 7 8 show ?thesis unfolding n_def by blast
qed

theorem progress_after_every_pixel_witness:
  "write_once (\<lambda>n. False)
   \<and> (case render_to_buffer_with_progress demo_env (small_camera 1 (1/2)) (Some False) [] 0 False
            (\<lambda>n. False) (\<lambda>n. 0) 0 of
        Inl err \<Rightarrow> False
      | Inr (oc, s) \<Rightarrow>
          oc = Completed \<and> completed_pixels s = 2
          \<and> stores (trace s) = [Pixel_written, Progress_set (1/2), Pixel_written, Progress_set 1]
          \<and> progress_values (trace s) = [1/2, 1]
          \<and> sorted (0 # progress_values (trace s))
          \<and> progress s = 1)"
proof -
  obtain vp where vp: "initialize (small_camera 1 (1/2)) = Some vp" "image_height vp = 2"
    by (rule small_1x2)
  define c where "c = render_ctx demo_env (small_camera 1 (1/2)) vp (Some False) (\<lambda>n. False) (\<lambda>n. 0)"
  define s where "s = polled c Render_end (row_loop c 0 (initial_state c [] 0 False 0))"
  note run = run_1x2_uncancelled [OF vp, folded c_def s_def]
  have once: "write_once (\<lambda>n. False)" by (simp add: write_once_def)
  have upto: "[1..2::int] = [1, 2]" by (simp add: upto.simps)
  have "stores (trace s) = [Pixel_written, Progress_set (1/2), Pixel_written, Progress_set 1]
        \<and> progress_values (trace s) = [1/2, 1] \<and> sorted (0 # progress_values (trace s))
        \<and> progress s = 1"
    using progress_after_every_pixel [OF once run(1) vp(1)]
    by (simp add: run(2) vp(2) upto float_progress_half float_progress_all)
  then show ?thesis by (simp add: run once)
qed

text \<open>
  C6 as stated fails. In a render of 4097 by 4096 pixels that nobody cancels, the progress
  stored after the pixel before the last, number 16781311 of 16781312, is already 1: the
  conversion to \<open>float\<close> rounds 16781311 to 16781312.
\<close>

theorem progress_one_early_counterexample:
  "write_once (\<lambda>n. False)
   \<and> (case render_to_buffer_with_progress demo_env (small_camera 4097 (4097/4096)) (Some False) []
            0 False (\<lambda>n. False) (\<lambda>n. 0) 0 of
        Inl err \<Rightarrow> False
      | Inr (oc, s) \<Rightarrow>
          oc = Completed \<and> completed_pixels s = 16781312
          \<and> length (progress_values (trace s)) = 16781312
          \<and> progress_values (trace s) ! 16781310 = 1)"
proof -
  obtain vp where vp: "initialize (small_camera 4097 (4097/4096)) = Some vp"
    "image_height vp = 4096"
    by (rule small_camera_initialize [of "4097/4096" 4097])
       (simp_all add: round_double_numeral trunc_def INT_MIN_def INT_MAX_def)
  have size: "0 \<le> 4097 * image_height vp" "4097 * image_height vp * 3 \<le> INT_MAX"
    by (simp_all add: vp(2) INT_MAX_def)
  have once: "write_once (\<lambda>n. False)" by (simp add: write_once_def)
  define c where
    "c = render_ctx demo_env (small_camera 4097 (4097/4096)) vp (Some False) (\<lambda>n. False) (\<lambda>n. 0)"
  define s1 where "s1 = row_loop c 0 (initial_state c [] 0 False 0)"
  have run: "render_to_buffer_with_progress demo_env (small_camera 4097 (4097/4096)) (Some False) []
            0 False (\<lambda>n. False) (\<lambda>n. 0) 0 = Inr (Completed, polled c Render_end s1)"
    by (simp add: small_runs [OF vp(1) size] c_def s1_def)
  note left = loops_left [OF once run vp(1), folded c_def s1_def]
  note facts = cancellation_facts [OF once run vp(1)]
  have all: "completed_pixels (polled c Render_end s1) = 16781312"
    using facts(1,4) by (simp add: vp(2))
  then have cp: "completed_pixels s1 = 16781312" by (simp add: fields_polled)
  have pv: "progress_values (trace (polled c Render_end s1))
      = map (\<lambda>k. float_progress k 16781312) [1..16781312]"
    using left(5) by (simp add: progress_inv_def trace_polled progress_values_append cp
        total_pixels_def c_def vp(2))
  have nth: "[1..16781312] ! 16781310 = (16781311::int)"
    using nth_upto [of 1 16781310 16781312] by simp
  have "progress_values (trace (polled c Render_end s1)) ! 16781310 = 1"
    by (simp add: pv nth float_progress_early)
  moreover have "length (progress_values (trace (polled c Render_end s1))) = 16781312"
    by (simp add: pv)
  ultimately show ?thesis by (simp add: run once all)
qed

text \<open>
  C9. Two invocations on the same configuration, scene and generator state that nobody
  cancels leave the same bytes in the buffer (or fail with the same error), whatever the
  two clocks return and whatever the buffer, the progress and the update flag held at the
  two calls. The source has no seed parameter: the seed is the state of the global
  generator at the call.
\<close>

theorem render_is_deterministic:
  assumes "\<forall>n. \<not> stop n" and "\<forall>n. \<not> stop' n"
  shows "(case render_to_buffer_with_progress e cam world b0 p0 u0 stop clock g of
            Inl err \<Rightarrow> Inl err
          | Inr (oc, s) \<Rightarrow> Inr (buffer s))
       = (case render_to_buffer_with_progress e cam world b0' p0' u0' stop' clock' g of
            Inl err \<Rightarrow> Inl err
          | Inr (oc, s) \<Rightarrow> Inr (buffer s))"
  by (simp only: uncancelled_render(1) [OF assms(1)] uncancelled_render(1) [OF assms(2)])

theorem render_is_deterministic_witness:
  "(\<forall>n. \<not> (\<lambda>n. False) n)
   \<and> (case render_to_buffer_with_progress demo_env scenario_camera (Some True) [] 0 False
            (\<lambda>n. False) (\<lambda>n. 0) 7 of
        Inl err \<Rightarrow> Inl err
      | Inr (oc, s) \<Rightarrow> Inr (buffer s))
     = (case render_to_buffer_with_progress demo_env scenario_camera (Some True) [1, 2, 3] (1/2) True
            (\<lambda>n. False) (\<lambda>n. real n) 7 of
        Inl err \<Rightarrow> Inl err
      | Inr (oc, s) \<Rightarrow> Inr (buffer s))
   \<and> (case render_to_buffer_with_progress demo_env scenario_camera (Some True) [] 0 False
            (\<lambda>n. False) (\<lambda>n. 0) 7 of
        Inl err \<Rightarrow> False
      | Inr (oc, s) \<Rightarrow> True)"
proof -
  have never: "\<forall>n. \<not> (\<lambda>n. False) n" by simp
  obtain oc s where "render_to_buffer_with_progress demo_env scenario_camera (Some True) [] 0 False
            (\<lambda>n. False) (\<lambda>n. 0) 7 = Inr (oc, s)"
    by (rule scenario_runs)
  then have "case render_to_buffer_with_progress demo_env scenario_camera (Some True) [] 0 False
            (\<lambda>n. False) (\<lambda>n. 0) 7 of
        Inl err \<Rightarrow> False
      | Inr (oc, s) \<Rightarrow> True"
    by simp
  with never render_is_deterministic [OF never never, of demo_env scenario_camera "Some True"
      "[]" 0 False "\<lambda>n. 0" 7 "[1, 2, 3]" "1/2" True "\<lambda>n. real n"]
  show ?thesis by blast
qed

text \<open>
  C10. \<open>render_to_buffer\<close> leaves in the buffer what \<open>render_to_buffer_with_progress\<close> leaves
  with a flag that is never set, whatever progress, update flag and clock the latter is
  given; and such an invocation ends as \<open>Completed\<close> with as many completed pixels as the
  buffer has room for.
\<close>

theorem legacy_render_refines:
  assumes "\<forall>n. \<not> stop n"
  shows "render_to_buffer e cam world b0 clock g
         = (case render_to_buffer_with_progress e cam world b0 p0 u0 stop clock' g of
              Inl err \<Rightarrow> Inl err
            | Inr (oc, s) \<Rightarrow> Inr (buffer s))
    \<and> (case render_to_buffer_with_progress e cam world b0 p0 u0 stop clock' g of
          Inl err \<Rightarrow> True
        | Inr (oc, s) \<Rightarrow> oc = Completed \<and> 3 * completed_pixels s = int (length (buffer s)))"
proof -
  have "render_to_buffer e cam world b0 clock g = rendered_image e cam world g"
    unfolding render_to_buffer_def by (rule uncancelled_render(1)) simp
  moreover note uncancelled_render(1) [OF assms, of e cam world b0 p0 u0 clock' g]
    uncancelled_render(2) [OF assms, of e cam world b0 p0 u0 clock' g]
  ultimately show ?thesis by simp
qed

theorem legacy_render_refines_witness:
  "(\<forall>n. \<not> (\<lambda>n. False) n)
   \<and> render_to_buffer demo_env scenario_camera (Some True) [] (\<lambda>n. 0) 7
     = (case render_to_buffer_with_progress demo_env scenario_camera (Some True) [] (1/2) True
            (\<lambda>n. False) (\<lambda>n. real n) 7 of
        Inl err \<Rightarrow> Inl err
      | Inr (oc, s) \<Rightarrow> Inr (buffer s))
   \<and> (case render_to_buffer_with_progress demo_env scenario_camera (Some True) [] (1/2) True
            (\<lambda>n. False) (\<lambda>n. real n) 7 of
        Inl err \<Rightarrow> False
      | Inr (oc, s) \<Rightarrow> oc = Completed \<and> 3 * completed_pixels s = int (length (buffer s)))"
proof -
  have never: "\<forall>n. \<not> (\<lambda>n. False) n" by simp
  obtain oc s where run: "render_to_buffer_with_progress demo_env scenario_camera (Some True) []
            (1/2) True (\<lambda>n. False) (\<lambda>n. real n) 7 = Inr (oc, s)"
    by (rule scenario_runs)
  note refines = legacy_render_refines [OF never, of demo_env scenario_camera "Some True" "[]"
      "\<lambda>n. 0" 7 "1/2" True "\<lambda>n. real n"]
  from refines have "case render_to_buffer_with_progress demo_env scenario_camera (Some True) []
            (1/2) True (\<lambda>n. False) (\<lambda>n. real n) 7 of
        Inl err \<Rightarrow> False
      | Inr (oc, s) \<Rightarrow> oc = Completed \<and> 3 * completed_pixels s = int (length (buffer s))"
    by (simp add: run)
  with never refines show ?thesis by blast
qed

end
